(* ===== verification/Prelude.thy ===== *)
theory Prelude
  imports Main "HOL-Library.Word"
begin

text \<open>
  Shared vocabulary of the development: the types that stand for Python's text and the
  serial port's bytes, the conversion from Isabelle string literals to code points used
  by the concrete examples, the collections of rewrite rules the component theories
  contribute to, and generic lemmas on lists that several components use.
\<close>

section \<open>Types of the model\<close>

text \<open>
  A Python \<open>str\<close> is a sequence of Unicode code points: a \<open>pystr\<close> is a list of natural
  numbers, each the code point of one character. A Python \<open>bytes\<close> value read from the
  serial port is a list of 8-bit words.
\<close>

type_synonym codepoint = nat
type_synonym pystr = "codepoint list"
type_synonym byte = "8 word"

named_theorems text_simps "rewrite rules of the Python text operations"
named_theorems loop_simps "rewrite rules of the main loop and its handlers"

text \<open>
  \<open>pys\<close> reads an Isabelle string literal (8-bit characters) as the Python string of the same
  code points; it is how the concrete inputs of the examples are written.
\<close>

definition pys :: "string \<Rightarrow> pystr" where
  "pys s = map of_char s"

text \<open>\<open>pyb\<close> reads a string literal as the bytes of its characters, for concrete serial
  input.\<close>

definition pyb :: "string \<Rightarrow> byte list" where
  "pyb s = map (\<lambda>c. of_nat (of_char c)) s"

lemma pys_Nil [simp]: "pys [] = []"
  by (simp add: pys_def)

lemma pys_Cons [simp]: "pys (c # s) = of_char c # pys s"
  by (simp add: pys_def)

lemma pys_append [simp]: "pys (s @ t) = pys s @ pys t"
  by (simp add: pys_def)

lemma pyb_Nil [simp]: "pyb [] = []"
  by (simp add: pyb_def)

lemma pyb_Cons [simp]: "pyb (c # s) = of_nat (of_char c) # pyb s"
  by (simp add: pyb_def)

section \<open>Generic list lemmas\<close>

lemma dropWhile_all:
  "(\<forall>x \<in> set xs. P x) \<Longrightarrow> dropWhile P xs = []"
  by (simp add: dropWhile_eq_Nil_conv)

lemma dropWhile_append_all:
  "(\<forall>x \<in> set xs. P x) \<Longrightarrow> dropWhile P (xs @ ys) = dropWhile P ys"
  by (induction xs) auto

lemma takeWhile_append_all:
  "(\<forall>x \<in> set xs. P x) \<Longrightarrow> takeWhile P (xs @ ys) = xs @ takeWhile P ys"
  by (induction xs) auto

lemma dropWhile_append_stop:
  "ys = y # ys' \<Longrightarrow> \<not> P y \<Longrightarrow> (\<forall>x \<in> set xs. P x) \<Longrightarrow> dropWhile P (xs @ ys) = ys"
  by (simp add: dropWhile_append_all)

lemma takeWhile_append_stop:
  "ys = y # ys' \<Longrightarrow> \<not> P y \<Longrightarrow> (\<forall>x \<in> set xs. P x) \<Longrightarrow> takeWhile P (xs @ ys) = xs"
  by (simp add: takeWhile_append_all)

lemma rev_dropWhile_rev_append_all:
  "(\<forall>x \<in> set ys. P x) \<Longrightarrow> rev (dropWhile P (rev (xs @ ys))) = rev (dropWhile P (rev xs))"
  by (simp add: dropWhile_append_all)

end
