(* ===== verification/Py_Text.thy ===== *)
theory Py_Text
  imports Prelude
begin

text \<open>
  The Python string methods the read loop of \<open>src/MouseTracking/python_code.py\<close> calls
  on each line: \<open>str.strip()\<close> (line 36) and \<open>str.split(",")\<close> (line 41), together
  with \<open>str.join\<close>, the inverse the sender's format is written with. They follow
  CPython 3.11 (\<open>Objects/unicodeobject.c\<close>): \<open>strip\<close> removes the characters for
  which \<open>str.isspace\<close> holds from both ends; \<open>split\<close> with a one-character separator
  returns the pieces between separators, empty ones included, one more than the number
  of separators.
\<close>

section \<open>Whitespace\<close>

text \<open>
  \<open>str.isspace\<close> of one code point (\<open>Py_UNICODE_ISSPACE\<close>, Unicode 14.0 as shipped
  with Python 3.11): the ASCII controls 9 to 13 and 28 to 31, the space, and the
  Unicode separators listed below.
\<close>

definition py_isspace :: "codepoint \<Rightarrow> bool" where
  "py_isspace c \<longleftrightarrow>
     (9 \<le> c \<and> c \<le> 13) \<or> (28 \<le> c \<and> c \<le> 32) \<or> c = 0x85 \<or> c = 0xA0 \<or> c = 0x1680 \<or>
     (0x2000 \<le> c \<and> c \<le> 0x200A) \<or> c = 0x2028 \<or> c = 0x2029 \<or> c = 0x202F \<or>
     c = 0x205F \<or> c = 0x3000"

section \<open>strip\<close>

definition py_strip :: "pystr \<Rightarrow> pystr" where
  "py_strip s = rev (dropWhile py_isspace (rev (dropWhile py_isspace s)))"

section \<open>split with a one-character separator\<close>

text \<open>
  \<open>split_acc d cur s\<close> is CPython's scan: \<open>cur\<close> is the piece read so far; a separator
  closes it and starts a new one; the end of the text closes the last piece.
\<close>

fun split_acc :: "codepoint \<Rightarrow> pystr \<Rightarrow> pystr \<Rightarrow> pystr list" where
  "split_acc d cur [] = [cur]"
| "split_acc d cur (c # cs) = (if c = d then cur # split_acc d [] cs else split_acc d (cur @ [c]) cs)"

definition py_split :: "codepoint \<Rightarrow> pystr \<Rightarrow> pystr list" where
  "py_split d s = split_acc d [] s"

text \<open>\<open>d.join(ps)\<close> for a one-character separator \<open>d\<close>.\<close>

fun py_join :: "codepoint \<Rightarrow> pystr list \<Rightarrow> pystr" where
  "py_join d [] = []"
| "py_join d [p] = p"
| "py_join d (p # ps) = p @ d # py_join d ps"

text \<open>The reference meaning of \<open>s.split(d)\<close> (Python documentation: "the words in the
  string, using \<open>d\<close> as the delimiter"): the text up to the first separator, then the
  split of the rest after it; the whole text when there is no separator. It recurses on a
  shorter text, which the termination proof shows.\<close>

function split_ref :: "codepoint \<Rightarrow> pystr \<Rightarrow> pystr list" where
  "split_ref d s =
     (if d \<in> set s then takeWhile (\<lambda>c. c \<noteq> d) s # split_ref d (tl (dropWhile (\<lambda>c. c \<noteq> d) s))
      else [s])"
  by pat_completeness auto

termination
  by (relation "measure (\<lambda>(d, s). length s)")
    (auto intro!: le_less_trans [OF diff_le_mono [OF length_dropWhile_le]] diff_less length_pos_if_in_set)

declare split_ref.simps [simp del]

section \<open>Lemmas on strip\<close>

lemma py_strip_no_space_ends:
  assumes "\<not> py_isspace (hd s)" and "\<not> py_isspace (last s)" and "s \<noteq> []"
  shows "py_strip s = s"
proof -
  from assms obtain c cs where s: "s = c # cs" by (cases s) auto
  have d: "dropWhile py_isspace s = s" using assms s by simp
  from assms obtain ys y where r: "rev s = y # ys" and "\<not> py_isspace y"
    by (cases "rev s") (auto simp: last_rev [symmetric])
  then have "dropWhile py_isspace (rev s) = rev s" by simp
  with d show ?thesis by (simp add: py_strip_def)
qed

lemma py_strip_append_space [text_simps]:
  assumes ws: "\<forall>x \<in> set ws. py_isspace x" and ws': "\<forall>x \<in> set ws'. py_isspace x"
  shows "py_strip (ws @ s @ ws') = py_strip s"
proof (cases "\<forall>x \<in> set s. py_isspace x")
  case True
  with ws ws' show ?thesis by (simp add: py_strip_def dropWhile_append_all dropWhile_all)
next
  case False
  then have "dropWhile py_isspace (s @ ws') = dropWhile py_isspace s @ ws'"
    by (auto simp: dropWhile_append)
  with ws ws' show ?thesis by (simp add: py_strip_def dropWhile_append_all)
qed

section \<open>Lemmas on split and join\<close>

lemma split_acc_join [text_simps]: "py_join d (split_acc d cur s) = cur @ s"
proof (induction d cur s rule: split_acc.induct)
  case (1 d cur)
  then show ?case by simp
next
  case (2 d cur c cs)
  then show ?case by (cases "split_acc d [] cs") auto
qed

lemma length_split_acc [text_simps]: "length (split_acc d cur s) = Suc (count_list s d)"
  by (induction d cur s rule: split_acc.induct) auto

lemma py_join_split [text_simps]: "py_join d (py_split d s) = s"
  by (simp add: py_split_def split_acc_join)

lemma length_py_split: "length (py_split d s) = Suc (count_list s d)"
  by (simp add: py_split_def length_split_acc)

lemma split_acc_append_piece:
  "d \<notin> set p \<Longrightarrow> split_acc d cur (p @ rest) = split_acc d (cur @ p) rest"
  by (induction p arbitrary: cur) auto

lemma split_acc_join_pieces:
  "ps \<noteq> [] \<Longrightarrow> (\<forall>p \<in> set ps. d \<notin> set p) \<Longrightarrow>
   split_acc d cur (py_join d ps) = (cur @ hd ps) # tl ps"
proof (induction d ps arbitrary: cur rule: py_join.induct)
  case (2 d p)
  then show ?case using split_acc_append_piece [of d p cur "[]"] by simp
next
  case (3 d p q ps)
  then have "split_acc d cur (py_join d (p # q # ps)) = split_acc d (cur @ p) (d # py_join d (q # ps))"
    using split_acc_append_piece [of d p cur] by simp
  also have "\<dots> = (cur @ p) # split_acc d [] (py_join d (q # ps))"
    by simp
  also have "\<dots> = (cur @ p) # q # ps"
    using 3 by simp
  finally show ?case by simp
qed simp

lemma split_join_pieces:
  "ps \<noteq> [] \<Longrightarrow> (\<forall>p \<in> set ps. d \<notin> set p) \<Longrightarrow> py_split d (py_join d ps) = ps"
  by (simp add: py_split_def split_acc_join_pieces)

lemma set_py_join_piece:
  "c \<in> set (py_join d ps) \<Longrightarrow> c \<noteq> d \<Longrightarrow> \<exists>p \<in> set ps. c \<in> set p"
  by (induction d ps rule: py_join.induct) auto

lemma split_ref_not_Nil: "split_ref d s \<noteq> []"
  by (subst split_ref.simps) simp

lemma split_ref_Nil: "split_ref d [] = [[]]"
  by (simp add: split_ref.simps)

lemma split_ref_Cons:
  "split_ref d (c # cs) =
     (if c = d then [] # split_ref d cs
      else case split_ref d cs of p # ps \<Rightarrow> (c # p) # ps)"
proof (cases "c = d")
  case True
  then show ?thesis by (subst split_ref.simps) simp
next
  case False
  then show ?thesis
    using split_ref.simps [of d "c # cs"] split_ref.simps [of d cs] by (cases "d \<in> set cs") auto
qed

lemma split_acc_ref: "split_acc d cur s = (case split_ref d s of p # ps \<Rightarrow> (cur @ p) # ps)"
proof (induction d cur s rule: split_acc.induct)
  case (1 d cur)
  then show ?case by (simp add: split_ref_Nil)
next
  case (2 d cur c cs)
  then show ?case using split_ref_not_Nil [of d cs] by (cases "split_ref d cs") (auto simp: split_ref_Cons)
qed

section \<open>Properties of split and join\<close>

text \<open>\<open>d.join\<close> undoes \<open>split(d)\<close> on every string, and \<open>split(d)\<close> undoes \<open>d.join\<close>
  on every non-empty list of pieces without \<open>d\<close>; a string with \<open>k\<close> separators has
  \<open>k + 1\<close> pieces.\<close>

theorem py_split_join:
  assumes "ps \<noteq> []" and "\<forall>p \<in> set ps. d \<notin> set p"
  shows "py_split d (py_join d ps) = ps \<and> py_join d (py_split d s) = s \<and>
         length (py_split d s) = Suc (count_list s d)"
  using assms by (simp add: split_join_pieces py_join_split length_py_split)

theorem py_split_join_witness:
  "py_split 44 (py_join 44 [[53], [], [48, 48]]) = [[53], [], [48, 48]] \<and>
   py_join 44 (py_split 44 [53::nat, 44, 44]) = [53, 44, 44] \<and>
   length (py_split 44 [53::nat, 44, 44]) = Suc (count_list [53::nat, 44, 44] 44)"
proof -
  have h: "[[53::nat], [], [48, 48]] \<noteq> []" "\<forall>p \<in> set [[53], [], [48, 48]]. (44::nat) \<notin> set p" by simp_all
  show ?thesis using h py_split_join [OF h, of "[53::nat, 44, 44]"] by simp
qed

text \<open>Equivalence: CPython's one-pass scan \<open>split_acc\<close> computes the reference
  meaning \<open>split_ref\<close> of \<open>str.split\<close> on every string and separator.\<close>

theorem py_split_ref: "py_split d s = split_ref d s"
  using split_acc_ref [of d "[]" s] split_ref_not_Nil [of d s]
  by (cases "split_ref d s") (simp_all add: py_split_def)

end
