(* ===== verification/Py_Int.thy ===== *)
theory Py_Int
  imports Py_Text
begin

text \<open>
  Python's \<open>int(s)\<close> on a string, as the decoder of
  \<open>src/MouseTracking/python_code.py\<close> calls it on each field (lines 46 to 49), following
  CPython 3.11 (\<open>PyLong_FromUnicodeObject\<close> and \<open>PyLong_FromString\<close> in
  \<open>Objects/longobject.c\<close>). The string is first transformed: a code point below 127 is
  kept, a non-ASCII whitespace becomes a space, a non-ASCII decimal digit becomes its ASCII
  digit, anything else makes the conversion fail. Then: leading ASCII whitespace
  (\<open>Py_ISSPACE\<close>: tab, newline, vertical tab, form feed, carriage return, space) is
  skipped, one optional sign is read, then a run of digits and underscores in which
  underscores only separate digits, then trailing whitespace up to the end. A run of more
  than 4300 digits (the default \<open>sys.get_int_max_str_digits()\<close>; underscores not
  counted, leading zeros counted) is refused. Every failure is Python's \<open>ValueError\<close>,
  which is \<open>None\<close> here.
\<close>

section \<open>Character classes\<close>

definition INT_MAX_STR_DIGITS :: nat where
  "INT_MAX_STR_DIGITS = 4300"

text \<open>The non-ASCII code points whose Unicode decimal value is 0 (Unicode 14.0); each
  starts a run of ten consecutive digits 0 to 9.\<close>

definition unicode_decimal_zeros :: "codepoint list" where
  "unicode_decimal_zeros =
     [0x660, 0x6F0, 0x7C0, 0x966, 0x9E6, 0xA66, 0xAE6, 0xB66, 0xBE6, 0xC66, 0xCE6, 0xD66,
      0xDE6, 0xE50, 0xED0, 0xF20, 0x1040, 0x1090, 0x17E0, 0x1810, 0x1946, 0x19D0, 0x1A80,
      0x1A90, 0x1B50, 0x1BB0, 0x1C40, 0x1C50, 0xA620, 0xA8D0, 0xA900, 0xA9D0, 0xA9F0,
      0xAA50, 0xABF0, 0xFF10, 0x104A0, 0x10D30, 0x11066, 0x110F0, 0x11136, 0x111D0,
      0x112F0, 0x11450, 0x114D0, 0x11650, 0x116C0, 0x11730, 0x118E0, 0x11950, 0x11C50,
      0x11D50, 0x11DA0, 0x16A60, 0x16AC0, 0x16B50, 0x1D7CE, 0x1D7D8, 0x1D7E2, 0x1D7EC,
      0x1D7F6, 0x1E140, 0x1E2F0, 0x1E950, 0x1FBF0]"

text \<open>The digit a code point stands for after the transformation (\<open>Py_UNICODE_TODECIMAL\<close>
  for non-ASCII code points, the ASCII digits below 127).\<close>

definition decimal_value :: "codepoint \<Rightarrow> nat option" where
  "decimal_value c =
     (if c < 127 then (if 48 \<le> c \<and> c \<le> 57 then Some (c - 48) else None)
      else (case find (\<lambda>z. z \<le> c \<and> c < z + 10) unicode_decimal_zeros of
              Some z \<Rightarrow> Some (c - z)
            | None \<Rightarrow> None))"

text \<open>Whitespace as \<open>int()\<close> sees it: after the transformation only ASCII whitespace is
  skipped, so the ASCII separators 28 to 31, which \<open>str.isspace\<close> accepts, are refused.\<close>

definition int_space :: "codepoint \<Rightarrow> bool" where
  "int_space c = (if c < 127 then (9 \<le> c \<and> c \<le> 13) \<or> c = 32 else py_isspace c)"

definition digit_or_us :: "codepoint \<Rightarrow> bool" where
  "digit_or_us c = (case decimal_value c of Some _ \<Rightarrow> True | None \<Rightarrow> c = 95)"

text \<open>The characters a string \<open>int()\<close> accepts can hold: whitespace, digits,
  underscores and the two signs.\<close>

definition int_char :: "codepoint \<Rightarrow> bool" where
  "int_char c = (int_space c \<or> digit_or_us c \<or> c = 43 \<or> c = 45)"

section \<open>The conversion\<close>

fun sign_prefix :: "pystr \<Rightarrow> int \<times> pystr" where
  "sign_prefix [] = (1, [])"
| "sign_prefix (c # cs) = (if c = 43 then (1, cs) else if c = 45 then (-1, cs) else (1, c # cs))"

fun has_double_us :: "pystr \<Rightarrow> bool" where
  "has_double_us (a # b # cs) = ((a = 95 \<and> b = 95) \<or> has_double_us (b # cs))"
| "has_double_us _ = False"

text \<open>The digit run is refused when it is empty (no digits), starts with an underscore,
  ends with one, or has two in a row.\<close>

definition digit_run_ok :: "pystr \<Rightarrow> bool" where
  "digit_run_ok body = (body \<noteq> [] \<and> hd body \<noteq> 95 \<and> last body \<noteq> 95 \<and> \<not> has_double_us body)"

fun digit_values :: "pystr \<Rightarrow> nat list" where
  "digit_values [] = []"
| "digit_values (c # cs) =
     (case decimal_value c of Some d \<Rightarrow> d # digit_values cs | None \<Rightarrow> digit_values cs)"

definition digits_to_nat :: "nat list \<Rightarrow> nat" where
  "digits_to_nat ds = foldl (\<lambda>a d. 10 * a + d) 0 ds"

definition py_int :: "pystr \<Rightarrow> int option" where
  "py_int s =
     (let (sg, s2) = sign_prefix (dropWhile int_space s);
          body = takeWhile digit_or_us s2;
          rest = dropWhile digit_or_us s2;
          ds = digit_values body
      in if digit_run_ok body \<and> length ds \<le> INT_MAX_STR_DIGITS \<and> list_all int_space rest
         then Some (sg * int (digits_to_nat ds)) else None)"

section \<open>Decimal rendering\<close>

text \<open>The decimal form of an integer, as the line protocol writes each field: a minus sign
  for a negative value, then the digits of the magnitude without leading zeros.\<close>

fun nat_digits :: "nat \<Rightarrow> nat list" where
  "nat_digits n = (if n < 10 then [n] else nat_digits (n div 10) @ [n mod 10])"

definition decimal_str :: "int \<Rightarrow> pystr" where
  "decimal_str i = (if i < 0 then [45] else []) @ map (\<lambda>d. 48 + d) (nat_digits (nat \<bar>i\<bar>))"

declare nat_digits.simps [simp del]

section \<open>Decimal digits\<close>

lemma nat_digits_lt10: "d \<in> set (nat_digits n) \<Longrightarrow> d < 10"
proof (induction n rule: nat_digits.induct)
  case (1 n)
  then show ?case by (subst (asm) nat_digits.simps) (auto split: if_splits)
qed

lemma nat_digits_not_Nil [simp]: "nat_digits n \<noteq> []"
  by (subst nat_digits.simps) simp

lemma digits_to_nat_snoc: "digits_to_nat (xs @ [x]) = 10 * digits_to_nat xs + x"
  by (simp add: digits_to_nat_def)

lemma digits_to_nat_nat_digits [simp]: "digits_to_nat (nat_digits n) = n"
proof (induction n rule: nat_digits.induct)
  case (1 n)
  then show ?case
    by (subst nat_digits.simps) (simp add: digits_to_nat_snoc digits_to_nat_def)
qed

lemma length_nat_digits_le:
  "0 < k \<Longrightarrow> length (nat_digits n) \<le> k \<longleftrightarrow> n < 10 ^ k"
proof (induction n arbitrary: k rule: nat_digits.induct)
  case (1 n)
  show ?case
  proof (cases "n < 10")
    case True
    moreover have "(10::nat) ^ 1 \<le> 10 ^ k" using "1.prems"
      by (intro power_increasing) auto
    ultimately show ?thesis using "1.prems" by (subst nat_digits.simps) simp
  next
    case False
    show ?thesis
    proof (cases k)
      case 0 with "1.prems" show ?thesis by simp
    next
      case (Suc j)
      show ?thesis
      proof (cases j)
        case 0
        with False Suc show ?thesis by (subst nat_digits.simps) simp
      next
        case (Suc i)
        have "length (nat_digits (n div 10)) \<le> j \<longleftrightarrow> n div 10 < 10 ^ j"
          using "1.IH" False Suc by simp
        moreover have "n div 10 < 10 ^ j \<longleftrightarrow> n < 10 ^ k"
          using \<open>k = Suc j\<close> by (simp add: div_less_iff_less_mult mult.commute)
        ultimately show ?thesis using False \<open>k = Suc j\<close> by (subst nat_digits.simps) simp
      qed
    qed
  qed
qed


lemma INT_MAX_STR_DIGITS_pos: "0 < INT_MAX_STR_DIGITS"
  by (simp add: INT_MAX_STR_DIGITS_def)

lemma decimal_value_ascii_digit [simp]: "d < 10 \<Longrightarrow> decimal_value (48 + d) = Some d"
  by (simp add: decimal_value_def)

lemma digit_or_us_ascii_digit [simp]: "d < 10 \<Longrightarrow> digit_or_us (48 + d)"
  by (simp add: digit_or_us_def)

lemma digit_values_ascii: "\<forall>d \<in> set ds. d < 10 \<Longrightarrow> digit_values (map (\<lambda>d. 48 + d) ds) = ds"
  by (induction ds) auto

lemma has_double_us_no_us: "95 \<notin> set s \<Longrightarrow> \<not> has_double_us s"
  by (induction s rule: has_double_us.induct) auto

lemma py_int_digits:
  assumes ds: "\<forall>d \<in> set ds. d < 10" "ds \<noteq> []" and sg: "sign_prefix s = (g, map (\<lambda>d. 48 + d) ds)"
    and sp: "dropWhile int_space s = s"
  shows "py_int s = (if length ds \<le> INT_MAX_STR_DIGITS then Some (g * int (digits_to_nat ds)) else None)"
proof -
  let ?t = "map (\<lambda>d. 48 + d) ds"
  have all: "\<forall>x \<in> set ?t. digit_or_us x" using ds by auto
  then have tw: "takeWhile digit_or_us ?t = ?t" and dw: "dropWhile digit_or_us ?t = []"
    by (simp_all add: dropWhile_all)
  have nous: "95 \<notin> set ?t" using ds by auto
  have "?t \<noteq> []" using ds by simp
  then have "hd ?t \<in> set ?t" "last ?t \<in> set ?t" by (rule hd_in_set, rule last_in_set)
  with nous have "hd ?t \<noteq> 95" "last ?t \<noteq> 95" by metis+
  with nous ds have ok: "digit_run_ok ?t"
    by (simp add: digit_run_ok_def has_double_us_no_us)
  show ?thesis
    using sp sg ok ds by (simp add: py_int_def digit_values_ascii tw dw Let_def)
qed


lemma py_int_decimal_str_eq:
  "py_int (decimal_str i) = (if \<bar>i\<bar> < 10 ^ INT_MAX_STR_DIGITS then Some i else None)"
proof -
  let ?ds = "nat_digits (nat \<bar>i\<bar>)"
  have ds: "\<forall>d \<in> set ?ds. d < 10" "?ds \<noteq> []" by (auto intro: nat_digits_lt10)
  obtain d ds' where c: "?ds = d # ds'" by (cases ?ds) auto
  with ds have "d < 10" by auto
  then have sp: "dropWhile int_space (decimal_str i) = decimal_str i"
    using c by (simp add: decimal_str_def int_space_def)
  have sg: "sign_prefix (decimal_str i) = (if i < 0 then -1 else 1, map (\<lambda>d. 48 + d) ?ds)"
    using c \<open>d < 10\<close> by (simp add: decimal_str_def)
  have "length ?ds \<le> INT_MAX_STR_DIGITS \<longleftrightarrow> nat \<bar>i\<bar> < 10 ^ INT_MAX_STR_DIGITS"
    using INT_MAX_STR_DIGITS_pos by (rule length_nat_digits_le)
  also have "\<dots> \<longleftrightarrow> \<bar>i\<bar> < 10 ^ INT_MAX_STR_DIGITS"
    by (simp add: nat_less_iff)
  finally have len: "length ?ds \<le> INT_MAX_STR_DIGITS \<longleftrightarrow> \<bar>i\<bar> < 10 ^ INT_MAX_STR_DIGITS" .
  show ?thesis
    using py_int_digits [OF ds sg sp] len by auto
qed

text \<open>C23: int() of the decimal rendering of an integer gives it back exactly when it has at most 4300 digits.\<close>

theorem py_int_decimal_str:
  "py_int (decimal_str i) = (if \<bar>i\<bar> < 10 ^ INT_MAX_STR_DIGITS then Some i else None)"
  by (rule py_int_decimal_str_eq)

section \<open>What int() accepts\<close>

text \<open>A field with a character other than whitespace, digits, underscores and signs (a
  letter, a comma, a dot) is a \<open>ValueError\<close>.\<close>

lemma sign_prefix_parts:
  "sign_prefix s = (g, s2) \<Longrightarrow> \<exists>p. s = p @ s2 \<and> (\<forall>c \<in> set p. c = 43 \<or> c = 45)"
  by (cases s rule: sign_prefix.cases) (auto split: if_splits)

lemma py_int_Some_chars:
  assumes "py_int s = Some v"
  shows "\<forall>c \<in> set s. int_char c"
proof -
  obtain g s2 where sg: "sign_prefix (dropWhile int_space s) = (g, s2)" by fastforce
  with assms have rest: "list_all int_space (dropWhile digit_or_us s2)"
    by (simp add: py_int_def Let_def split: if_splits)
  obtain p where p: "dropWhile int_space s = p @ s2" "\<forall>c \<in> set p. c = 43 \<or> c = 45"
    using sign_prefix_parts [OF sg] by blast
  have s: "s = takeWhile int_space s @ p @ s2"
    using p(1) by (metis takeWhile_dropWhile_id)
  have s2: "s2 = takeWhile digit_or_us s2 @ dropWhile digit_or_us s2" by simp
  show ?thesis
  proof
    fix c assume "c \<in> set s"
    then consider "c \<in> set (takeWhile int_space s)" | "c \<in> set p"
      | "c \<in> set (takeWhile digit_or_us s2)" | "c \<in> set (dropWhile digit_or_us s2)"
      using s s2 by (metis Un_iff set_append)
    then show "int_char c"
    proof cases
      case 1 then show ?thesis by (auto simp: int_char_def dest: set_takeWhileD)
    next
      case 2 then show ?thesis using p(2) by (auto simp: int_char_def)
    next
      case 3 then show ?thesis by (auto simp: int_char_def dest: set_takeWhileD)
    next
      case 4 then show ?thesis using rest by (auto simp: int_char_def list_all_iff)
    qed
  qed
qed

section \<open>Bounds\<close>

lemma decimal_value_lt10: "decimal_value c = Some d \<Longrightarrow> d < 10"
  by (auto simp: decimal_value_def find_Some_iff split: if_splits option.splits)

lemma digit_values_lt10: "d \<in> set (digit_values s) \<Longrightarrow> d < 10"
  by (induction s rule: digit_values.induct) (auto dest: decimal_value_lt10 split: option.splits)

lemma digits_to_nat_bound: "\<forall>d \<in> set ds. d < 10 \<Longrightarrow> digits_to_nat ds < 10 ^ length ds"
proof (induction ds rule: rev_induct)
  case Nil
  then show ?case by (simp add: digits_to_nat_def)
next
  case (snoc x xs)
  then have a: "digits_to_nat xs + 1 \<le> 10 ^ length xs" and x: "x < 10" by auto
  then have "10 * (digits_to_nat xs + 1) \<le> 10 * 10 ^ length xs" by simp
  with x show ?case by (simp add: digits_to_nat_snoc)
qed

lemma py_int_bound:
  assumes "py_int s = Some v"
  shows "\<bar>v\<bar> < 10 ^ INT_MAX_STR_DIGITS"
proof -
  obtain g s2 where sg: "sign_prefix (dropWhile int_space s) = (g, s2)" by fastforce
  let ?ds = "digit_values (takeWhile digit_or_us s2)"
  from assms sg have v: "v = g * int (digits_to_nat ?ds)" and len: "length ?ds \<le> INT_MAX_STR_DIGITS"
    by (simp_all add: py_int_def Let_def split: if_splits)
  have g: "\<bar>g\<bar> = 1" using sg by (cases "dropWhile int_space s" rule: sign_prefix.cases) (auto split: if_splits)
  have "digits_to_nat ?ds < 10 ^ length ?ds"
    by (rule digits_to_nat_bound) (auto dest: digit_values_lt10)
  also have "(10::nat) ^ length ?ds \<le> 10 ^ INT_MAX_STR_DIGITS"
    using len by (rule power_increasing) simp
  finally have "int (digits_to_nat ?ds) < 10 ^ INT_MAX_STR_DIGITS"
    by (metis of_nat_less_iff of_nat_numeral of_nat_power)
  with g v show ?thesis by (simp add: abs_mult)
qed

lemma ten_le_pow_max_digits: "(10::int) \<le> 10 ^ INT_MAX_STR_DIGITS"
proof -
  have "(10::int) ^ 1 \<le> 10 ^ INT_MAX_STR_DIGITS"
    using INT_MAX_STR_DIGITS_pos by (intro power_increasing) auto
  then show ?thesis by simp
qed

end
