(* ===== verification/Decoder.thy ===== *)
theory Decoder
  imports Py_Int
begin

text \<open>
  The line decoder of \<open>main()\<close> in \<open>src/MouseTracking/python_code.py\<close>, lines 36 to
  51: the decoded line is stripped; an empty line, a line that does not split into four
  comma-separated fields, and a line with a field \<open>int()\<close> refuses are skipped with
  \<open>continue\<close>; otherwise the four integers \<open>dx, dy, L, R\<close> are the frame. Each
  \<open>continue\<close> is a value of \<open>skip_reason\<close>, so every branch of the source is a
  branch of \<open>decode_line\<close>. The wire format the device sends (\<open>dx,dy,L,R\<close> in decimal,
  ended by the Arduino's \<open>println\<close> with carriage return and line feed) is
  \<open>format_frame\<close>.
\<close>

section \<open>Definitions\<close>

datatype skip_reason = EmptyLine | FieldCount nat | NotAnInteger

type_synonym frame = "int \<times> int \<times> int \<times> int"

definition COMMA :: codepoint where
  "COMMA = 44"

definition decode_line :: "pystr \<Rightarrow> skip_reason + frame" where
  "decode_line raw =
     (let line = py_strip raw in
      if line = [] then Inl EmptyLine
      else
        let parts = py_split COMMA line in
        if length parts \<noteq> 4 then Inl (FieldCount (length parts))
        else
          (case py_int (parts ! 0) of None \<Rightarrow> Inl NotAnInteger | Some dx \<Rightarrow>
           case py_int (parts ! 1) of None \<Rightarrow> Inl NotAnInteger | Some dy \<Rightarrow>
           case py_int (parts ! 2) of None \<Rightarrow> Inl NotAnInteger | Some L \<Rightarrow>
           case py_int (parts ! 3) of None \<Rightarrow> Inl NotAnInteger | Some R \<Rightarrow>
             Inr (dx, dy, L, R)))"

text \<open>The line protocol of the device, one frame in decimal fields.\<close>

fun format_frame :: "frame \<Rightarrow> pystr" where
  "format_frame (dx, dy, L, R) = py_join COMMA (map decimal_str [dx, dy, L, R])"

text \<open>A frame whose fields all have at most \<open>INT_MAX_STR_DIGITS\<close> digits.\<close>

fun frame_fits :: "frame \<Rightarrow> bool" where
  "frame_fits (dx, dy, L, R) =
     list_all (\<lambda>v. \<bar>v\<bar> < 10 ^ INT_MAX_STR_DIGITS) [dx, dy, L, R]"

declare format_frame.simps [simp del]

section \<open>Lemmas\<close>

lemma decode_line_split:
  "py_split COMMA (py_strip raw) = [p0, p1, p2, p3] \<Longrightarrow> py_strip raw \<noteq> [] \<Longrightarrow>
   decode_line raw =
     (case (py_int p0, py_int p1, py_int p2, py_int p3) of
        (Some dx, Some dy, Some L, Some R) \<Rightarrow> Inr (dx, dy, L, R)
      | _ \<Rightarrow> Inl NotAnInteger)"
  by (simp add: decode_line_def split: option.splits)

lemma decimal_str_no_comma: "COMMA \<notin> set (decimal_str i)"
  by (auto simp: decimal_str_def COMMA_def dest: nat_digits_lt10)

lemma decimal_str_not_Nil: "decimal_str i \<noteq> []"
  by (simp add: decimal_str_def)

lemma hd_decimal_str_not_space: "\<not> py_isspace (hd (decimal_str i))"
proof -
  obtain d ds where c: "nat_digits (nat \<bar>i\<bar>) = d # ds"
    by (cases "nat_digits (nat \<bar>i\<bar>)") auto
  then have "d < 10" using nat_digits_lt10 [of d "nat \<bar>i\<bar>"] by simp
  with c show ?thesis by (simp add: decimal_str_def py_isspace_def)
qed

lemma last_decimal_str_not_space: "\<not> py_isspace (last (decimal_str i))"
proof -
  have ne: "nat_digits (nat \<bar>i\<bar>) \<noteq> []" by simp
  then have "last (nat_digits (nat \<bar>i\<bar>)) < 10" using nat_digits_lt10 last_in_set by blast
  with ne show ?thesis by (simp add: decimal_str_def py_isspace_def last_map)
qed

lemma format_frame_not_Nil: "format_frame f \<noteq> []"
  by (cases f) (simp add: format_frame.simps decimal_str_not_Nil)

lemma py_strip_format_frame: "py_strip (format_frame f) = format_frame f"
proof -
  obtain dx dy L R where f: "f = (dx, dy, L, R)" by (cases f) auto
  have "\<not> py_isspace (hd (format_frame f))"
    using f decimal_str_not_Nil [of dx] hd_decimal_str_not_space [of dx]
    by (simp add: hd_append format_frame.simps)
  moreover have "\<not> py_isspace (last (format_frame f))"
    using f decimal_str_not_Nil [of R] last_decimal_str_not_space [of R]
    by (simp add: last_append format_frame.simps)
  moreover have "format_frame f \<noteq> []" by (rule format_frame_not_Nil)
  ultimately show ?thesis by (rule py_strip_no_space_ends)
qed

lemma decimal_str_ascii: "list_all (\<lambda>c. c < 128) (decimal_str i)"
  by (auto simp: decimal_str_def list_all_iff dest: nat_digits_lt10)

lemma format_frame_ascii: "list_all (\<lambda>c. c < 128) (format_frame f)"
  by (cases f) (simp add: format_frame.simps decimal_str_ascii COMMA_def)

lemma py_split_format_frame:
  "py_split COMMA (format_frame (dx, dy, L, R)) = map decimal_str [dx, dy, L, R]"
  by (simp only: format_frame.simps) (rule split_join_pieces, auto simp: decimal_str_no_comma)

lemma py_split_four:
  assumes "count_list s d = 3"
  obtains p0 p1 p2 p3 where "py_split d s = [p0, p1, p2, p3]"
proof -
  have "length (py_split d s) = 4" using assms by (simp add: length_py_split)
  then show ?thesis using that by (auto simp: numeral_eq_Suc length_Suc_conv)
qed

text \<open>The definitions the decoder unfolds to, for evaluating it on concrete lines.\<close>

lemmas decode_eval_simps = decode_line_def py_strip_def py_isspace_def py_split_def py_int_def
  decimal_value_def int_space_def digit_or_us_def digit_run_ok_def digits_to_nat_def
  INT_MAX_STR_DIGITS_def COMMA_def

section \<open>Properties of the decoder\<close>

text \<open>Round trip: the line the device sends for a frame, with any whitespace around it
  (the \<open>\r\n\<close> of \<open>println\<close>, padding), decodes to that frame, for every frame whose
  fields have at most 4300 digits.\<close>

lemma decode_line_format_frame:
  assumes fits: "frame_fits f" and ws: "list_all py_isspace ws" and ws': "list_all py_isspace ws'"
  shows "decode_line (ws @ format_frame f @ ws') = Inr f"
proof -
  obtain dx dy L R where f: "f = (dx, dy, L, R)" by (cases f) auto
  have strip: "py_strip (ws @ format_frame f @ ws') = format_frame f"
    using ws ws' by (simp add: list_all_iff py_strip_append_space py_strip_format_frame)
  have ints: "py_int (decimal_str v) = Some v" if "\<bar>v\<bar> < 10 ^ INT_MAX_STR_DIGITS" for v
    using that by (simp add: py_int_decimal_str_eq)
  have parts: "py_split COMMA (py_strip (ws @ format_frame f @ ws')) =
      [decimal_str dx, decimal_str dy, decimal_str L, decimal_str R]"
    using strip f by (simp add: py_split_format_frame)
  have ne: "py_strip (ws @ format_frame f @ ws') \<noteq> []"
    using strip format_frame_not_Nil [of f] by simp
  show ?thesis
    using decode_line_split [OF parts ne] f fits by (simp add: ints)
qed

text \<open>C3: round trip: the line the device sends for a frame, with any whitespace around it, decodes to that frame when every field has at most 4300 digits.\<close>

theorem decode_format_frame:
  "frame_fits f \<Longrightarrow> list_all py_isspace ws \<Longrightarrow> list_all py_isspace ws' \<Longrightarrow>
   decode_line (ws @ format_frame f @ ws') = Inr f"
  by (rule decode_line_format_frame)

theorem decode_format_frame_witness:
  "frame_fits (5, -2, 1, 0) \<and> list_all py_isspace [] \<and> list_all py_isspace [13, 10] \<and>
   decode_line ([] @ format_frame (5, -2, 1, 0) @ [13, 10]) = Inr (5, -2, 1, 0)"
proof -
  have h: "frame_fits (5, -2, 1, 0)" "list_all py_isspace []" "list_all py_isspace [13, 10]"
    using ten_le_pow_max_digits by (simp_all add: py_isspace_def)
  show ?thesis using h decode_format_frame [OF h] by simp
qed

text \<open>C22: Every decoded field has at most 4300 digits, so a decoded frame is sent again
  unchanged by the device's format: decoding is onto the frames that fit.\<close>

theorem decode_line_fits:
  assumes "decode_line s = Inr f"
  shows "frame_fits f \<and> decode_line (format_frame f) = Inr f"
proof -
  have "frame_fits f"
    using assms py_int_bound
    by (auto simp: decode_line_def Let_def split: if_splits option.splits)
  moreover then have "decode_line ([] @ format_frame f @ []) = Inr f"
    by (intro decode_line_format_frame) simp_all
  ultimately show ?thesis by simp
qed

theorem decode_line_fits_witness:
  "decode_line (pys ''5,0,0,0'') = Inr (5, 0, 0, 0) \<and>
   frame_fits (5, 0, 0, 0) \<and> decode_line (format_frame (5, 0, 0, 0)) = Inr (5, 0, 0, 0)"
proof -
  have h: "decode_line (pys ''5,0,0,0'') = Inr (5, 0, 0, 0)" by (simp add: decode_eval_simps)
  show ?thesis using h decode_line_fits [OF h] by simp
qed

text \<open>C38: Spec section 8, item 1, for every line the decoder accepts as the spec describes
  it: four comma-free fields, each a text \<open>int()\<close> accepts (a sign, leading zeros,
  underscores between digits, Unicode decimal digits, whitespace inside the line around a
  field), with any whitespace around the line, decode to exactly the four integers
  \<open>int()\<close> gives, in order.\<close>

theorem decode_line_fields:
  assumes "list_all py_isspace ws" and "list_all py_isspace ws'"
    and "list_all (\<lambda>p. COMMA \<notin> set p) [p0, p1, p2, p3]"
    and "p0 \<noteq> []" and "\<not> py_isspace (hd p0)" and "p3 \<noteq> []" and "\<not> py_isspace (last p3)"
    and "py_int p0 = Some dx" and "py_int p1 = Some dy" and "py_int p2 = Some L" and "py_int p3 = Some R"
  shows "decode_line (ws @ py_join COMMA [p0, p1, p2, p3] @ ws') = Inr (dx, dy, L, R)"
proof -
  have j: "py_join COMMA [p0, p1, p2, p3] = p0 @ COMMA # p1 @ COMMA # p2 @ COMMA # p3" by simp
  have strip: "py_strip (ws @ py_join COMMA [p0, p1, p2, p3] @ ws') = py_join COMMA [p0, p1, p2, p3]"
  proof -
    have "py_strip (py_join COMMA [p0, p1, p2, p3]) = py_join COMMA [p0, p1, p2, p3]"
      using assms(4-7) unfolding j by (intro py_strip_no_space_ends) (simp_all add: hd_append last_append)
    moreover have "py_strip (ws @ py_join COMMA [p0, p1, p2, p3] @ ws') = py_strip (py_join COMMA [p0, p1, p2, p3])"
      using assms(1,2) unfolding list_all_iff by (rule py_strip_append_space)
    ultimately show ?thesis by simp
  qed
  have parts: "py_split COMMA (py_strip (ws @ py_join COMMA [p0, p1, p2, p3] @ ws')) = [p0, p1, p2, p3]"
    unfolding strip using assms(3) by (intro split_join_pieces) auto
  have ne: "py_strip (ws @ py_join COMMA [p0, p1, p2, p3] @ ws') \<noteq> []"
    unfolding strip using assms(4) by simp
  show ?thesis using decode_line_split [OF parts ne] assms(8-11) by simp
qed

theorem decode_line_fields_witness:
  "list_all py_isspace [] \<and> list_all py_isspace [13, 10] \<and>
   list_all (\<lambda>p. COMMA \<notin> set p) [pys ''+05'', pys '' -2 '', pys ''1_0'', pys ''0''] \<and>
   pys ''+05'' \<noteq> [] \<and> \<not> py_isspace (hd (pys ''+05'')) \<and> pys ''0'' \<noteq> [] \<and> \<not> py_isspace (last (pys ''0'')) \<and>
   py_int (pys ''+05'') = Some 5 \<and> py_int (pys '' -2 '') = Some (-2) \<and> py_int (pys ''1_0'') = Some 10 \<and>
   py_int (pys ''0'') = Some 0 \<and>
   decode_line ([] @ py_join COMMA [pys ''+05'', pys '' -2 '', pys ''1_0'', pys ''0''] @ [13, 10]) = Inr (5, -2, 10, 0)"
proof -
  have h1: "list_all py_isspace []" "list_all py_isspace [13, 10]" by (simp_all add: py_isspace_def)
  have h2: "list_all (\<lambda>p. COMMA \<notin> set p) [pys ''+05'', pys '' -2 '', pys ''1_0'', pys ''0'']"
    by (simp add: pys_def COMMA_def)
  have h3: "pys ''+05'' \<noteq> []" "\<not> py_isspace (hd (pys ''+05''))" "pys ''0'' \<noteq> []" "\<not> py_isspace (last (pys ''0''))"
    by (simp_all add: pys_def py_isspace_def)
  have h4: "py_int (pys ''+05'') = Some 5" "py_int (pys '' -2 '') = Some (-2)" "py_int (pys ''1_0'') = Some 10"
    "py_int (pys ''0'') = Some 0"
    by (simp_all add: pys_def decode_eval_simps)
  show ?thesis using h1 h2 h3 h4 decode_line_fields [OF h1 h2 h3 h4] by simp
qed

text \<open>C10: A non-empty stripped line whose number of commas is not three does not have four
  fields and is skipped.\<close>

theorem decode_line_field_count:
  assumes "py_strip s \<noteq> []" and "count_list (py_strip s) COMMA \<noteq> 3"
  shows "decode_line s = Inl (FieldCount (Suc (count_list (py_strip s) COMMA)))"
  using assms by (simp add: decode_line_def length_py_split)

theorem decode_line_field_count_witness:
  "py_strip (pys ''bad,line'') \<noteq> [] \<and> count_list (py_strip (pys ''bad,line'')) COMMA \<noteq> 3 \<and>
   decode_line (pys ''bad,line'') =
     Inl (FieldCount (Suc (count_list (py_strip (pys ''bad,line'')) COMMA)))"
proof -
  have h: "py_strip (pys ''bad,line'') \<noteq> []" "count_list (py_strip (pys ''bad,line'')) COMMA \<noteq> 3"
    by (simp_all add: decode_eval_simps)
  show ?thesis using h decode_line_field_count [OF h] by simp
qed

text \<open>C11: A line of four fields with a character outside the ones \<open>int()\<close> accepts (a letter,
  a dot) is skipped.\<close>

theorem decode_line_not_integer:
  assumes "count_list (py_strip s) COMMA = 3" and "c \<in> set (py_strip s)"
    and "c \<noteq> COMMA" and "\<not> int_char c"
  shows "decode_line s = Inl NotAnInteger"
proof -
  obtain p0 p1 p2 p3 where parts: "py_split COMMA (py_strip s) = [p0, p1, p2, p3]"
    using assms(1) by (rule py_split_four)
  have "c \<in> set (py_join COMMA (py_split COMMA (py_strip s)))"
    using assms(2) by (simp add: py_join_split)
  then obtain p where p: "p \<in> {p0, p1, p2, p3}" and "c \<in> set p"
    using set_py_join_piece assms(3) parts by fastforce
  then have "py_int p = None"
    using assms(4) py_int_Some_chars by (metis not_None_eq)
  with p have bad: "py_int p0 = None \<or> py_int p1 = None \<or> py_int p2 = None \<or> py_int p3 = None"
    by auto
  have "py_strip s \<noteq> []" using assms(2) by auto
  with parts bad show ?thesis
    by (auto simp: decode_line_split split: option.splits)
qed

theorem decode_line_not_integer_witness:
  "count_list (py_strip (pys ''1,2,x,0'')) COMMA = 3 \<and> 120 \<in> set (py_strip (pys ''1,2,x,0'')) \<and>
   120 \<noteq> COMMA \<and> \<not> int_char 120 \<and> decode_line (pys ''1,2,x,0'') = Inl NotAnInteger"
proof -
  have h: "count_list (py_strip (pys ''1,2,x,0'')) COMMA = 3"
    "120 \<in> set (py_strip (pys ''1,2,x,0''))" "120 \<noteq> COMMA" "\<not> int_char 120"
    by (simp_all add: decode_eval_simps int_char_def)
  show ?thesis using h decode_line_not_integer [OF h] by simp
qed

text \<open>A line of whitespace only (a timeout of the read returns the empty line) is
  skipped.\<close>

theorem decode_line_blank:
  "list_all py_isspace s \<Longrightarrow> decode_line s = Inl EmptyLine"
  using py_strip_append_space [of s "[]" "[]"]
  by (simp add: decode_line_def list_all_iff py_strip_def)

theorem decode_line_blank_witness:
  "list_all py_isspace [13, 10] \<and> decode_line [13, 10] = Inl EmptyLine"
proof -
  have h: "list_all py_isspace [13, 10]" by (simp add: py_isspace_def)
  show ?thesis using h decode_line_blank [OF h] by simp
qed

end
