(* ===== verification/Buttons.thy ===== *)
theory Buttons
  imports Prelude
begin

text \<open>
  The click handling of \<open>main()\<close> in \<open>src/MouseTracking/python_code.py\<close>, lines 57 to
  71, and its state, the locals \<open>prevL\<close> and \<open>prevR\<close> (lines 27 and 28). With
  \<open>EDGE_CLICK\<close> (line 21) the left button is clicked when \<open>L == 1 and prevL == 0\<close>, the
  right one likewise; otherwise (press/hold mode) a button is pressed or released when its
  level differs from the previous one, pressed when the new level is non-zero. After the
  click handling both previous levels are set to the current ones. The actions are the
  calls on pynput's \<open>Controller\<close>: \<open>move\<close>, \<open>click(b, 1)\<close>, \<open>press\<close>,
  \<open>release\<close>.

  The abstract specification is the per-button machine of the spec (section 4.3) on
  released/pressed levels, the relation \<open>button_fsm\<close>, and its runs \<open>fsm_run\<close>. The
  code refines it for levels 0 and 1; for other levels it does not (section
  \<open>Lenient levels\<close>).
\<close>

section \<open>Data\<close>

datatype button = Left | Right

datatype action = Move int int | Click button | Press button | Release button

datatype trigger_policy = EdgeClick | PressHold

record button_state =
  prevL :: int
  prevR :: int

section \<open>Operations\<close>

definition init_state :: button_state where
  "init_state = \<lparr>prevL = 0, prevR = 0\<rparr>"

definition EDGE_CLICK :: bool where
  "EDGE_CLICK = True"

definition policy_of :: "bool \<Rightarrow> trigger_policy" where
  "policy_of edge = (if edge then EdgeClick else PressHold)"

text \<open>One button under \<open>EDGE_CLICK\<close>: \<open>if L == 1 and prevL == 0: mouse.click(b, 1)\<close>.\<close>

definition edge_click :: "button \<Rightarrow> int \<Rightarrow> int \<Rightarrow> action list" where
  "edge_click b cur prev = (if cur = 1 \<and> prev = 0 then [Click b] else [])"

text \<open>One button in press/hold mode:
  \<open>if L != prevL: (mouse.press(b) if L else mouse.release(b))\<close>; \<open>if L\<close> is Python's
  truth of an integer, \<open>L \<noteq> 0\<close>.\<close>

definition press_hold :: "button \<Rightarrow> int \<Rightarrow> int \<Rightarrow> action list" where
  "press_hold b cur prev = (if cur \<noteq> prev then [if cur \<noteq> 0 then Press b else Release b] else [])"

definition click_handling :: "trigger_policy \<Rightarrow> button_state \<Rightarrow> int \<Rightarrow> int \<Rightarrow> action list" where
  "click_handling pol st L R =
     (case pol of
        EdgeClick \<Rightarrow> edge_click Left L (prevL st) @ edge_click Right R (prevR st)
      | PressHold \<Rightarrow> press_hold Left L (prevL st) @ press_hold Right R (prevR st))"

text \<open>Lines 57 to 71: the actions of one frame and the state after it.\<close>

definition button_step :: "trigger_policy \<Rightarrow> button_state \<Rightarrow> int \<Rightarrow> int \<Rightarrow> action list \<times> button_state" where
  "button_step pol st L R = (click_handling pol st L R, st\<lparr>prevL := L, prevR := R\<rparr>)"

text \<open>The button levels of a sequence of decoded frames, fed through the click handling.\<close>

fun button_run :: "trigger_policy \<Rightarrow> button_state \<Rightarrow> (int \<times> int) list \<Rightarrow> action list \<times> button_state" where
  "button_run pol st [] = ([], st)"
| "button_run pol st ((L, R) # fs) =
     (let (as, st') = button_step pol st L R; (bs, st'') = button_run pol st' fs in (as @ bs, st''))"

section \<open>The abstract machine of one button\<close>

text \<open>The actions one button's transition from level \<open>prev\<close> to level \<open>cur\<close> emits, as the
  code computes them.\<close>

definition button_actions :: "trigger_policy \<Rightarrow> button \<Rightarrow> int \<Rightarrow> int \<Rightarrow> action list" where
  "button_actions pol b cur prev =
     (case pol of EdgeClick \<Rightarrow> edge_click b cur prev | PressHold \<Rightarrow> press_hold b cur prev)"

fun action_button :: "action \<Rightarrow> button option" where
  "action_button (Move _ _) = None"
| "action_button (Click b) = Some b"
| "action_button (Press b) = Some b"
| "action_button (Release b) = Some b"

definition actions_of :: "button \<Rightarrow> action list \<Rightarrow> action list" where
  "actions_of b as = filter (\<lambda>a. action_button a = Some b) as"

text \<open>The spec's machine: levels released (\<open>False\<close>) and pressed (\<open>True\<close>); a click on
  the rising edge only under EdgeClick; press on the rising and release on the falling edge
  under PressHold; nothing when the level is unchanged.\<close>

inductive button_fsm :: "trigger_policy \<Rightarrow> button \<Rightarrow> bool \<Rightarrow> bool \<Rightarrow> action list \<Rightarrow> bool" where
  edge_rise: "button_fsm EdgeClick b False True [Click b]"
| edge_fall: "button_fsm EdgeClick b True False []"
| edge_keep: "button_fsm EdgeClick b p p []"
| hold_rise: "button_fsm PressHold b False True [Press b]"
| hold_fall: "button_fsm PressHold b True False [Release b]"
| hold_keep: "button_fsm PressHold b p p []"

text \<open>A run of the machine over a sequence of levels from a starting level.\<close>

inductive fsm_run :: "trigger_policy \<Rightarrow> button \<Rightarrow> bool \<Rightarrow> bool list \<Rightarrow> action list \<Rightarrow> bool" where
  run_nil: "fsm_run pol b p [] []"
| run_cons: "button_fsm pol b p c as \<Longrightarrow> fsm_run pol b c cs bs \<Longrightarrow> fsm_run pol b p (c # cs) (as @ bs)"

text \<open>Press and release alternate: from a released button the actions are
  \<open>Press, Release, Press, \<dots>\<close>, from a pressed one \<open>Release, Press, \<dots>\<close>.\<close>

fun alternating :: "button \<Rightarrow> bool \<Rightarrow> action list \<Rightarrow> bool" where
  "alternating b held [] = True"
| "alternating b held (a # as) =
     (if held then a = Release b \<and> alternating b False as else a = Press b \<and> alternating b True as)"

text \<open>The level of button \<open>b\<close> in a frame's \<open>(L, R)\<close>, and its previous level.\<close>

fun level_of :: "button \<Rightarrow> int \<times> int \<Rightarrow> int" where
  "level_of Left (L, R) = L"
| "level_of Right (L, R) = R"

definition prev_of :: "button \<Rightarrow> button_state \<Rightarrow> int" where
  "prev_of b st = level_of b (prevL st, prevR st)"

definition level01 :: "int \<Rightarrow> bool" where
  "level01 v = (v = 0 \<or> v = 1)"

inductive_cases fsm_EdgeClick: "button_fsm EdgeClick b p c as"
inductive_cases fsm_PressHold: "button_fsm PressHold b p c as"
inductive_cases fsm_run_Nil: "fsm_run pol b p [] as"
inductive_cases fsm_run_Cons: "fsm_run pol b p (c # cs) as"

section \<open>Lemmas\<close>

lemma button_fsm_deterministic:
  "button_fsm pol b p c as \<Longrightarrow> button_fsm pol b p c as' \<Longrightarrow> as = as'"
  by (auto elim!: button_fsm.cases)

lemma actions_of_button_actions:
  "actions_of b' (button_actions pol b cur prev) = (if b' = b then button_actions pol b cur prev else [])"
  by (cases pol) (auto simp: actions_of_def button_actions_def edge_click_def press_hold_def)

lemma actions_of_Nil [simp]: "actions_of b [] = []"
  by (simp add: actions_of_def)

lemma actions_of_append: "actions_of b (xs @ ys) = actions_of b xs @ actions_of b ys"
  by (simp add: actions_of_def)

lemma click_handling_buttons:
  "click_handling pol st L R =
     button_actions pol Left L (prevL st) @ button_actions pol Right R (prevR st)"
  by (cases pol) (simp_all add: click_handling_def button_actions_def)

lemma actions_of_click_handling:
  "actions_of b (click_handling pol st L R) = button_actions pol b (level_of b (L, R)) (prev_of b st)"
  by (cases b) (simp_all add: click_handling_buttons actions_of_append actions_of_button_actions prev_of_def)

lemma prev_of_step: "prev_of b (snd (button_step pol st L R)) = level_of b (L, R)"
  by (cases b) (simp_all add: button_step_def prev_of_def)

text \<open>One step of the code for one button is a step of the spec's machine, when the levels
  are 0 or 1.\<close>

lemma button_actions_refines:
  "level01 prev \<Longrightarrow> level01 cur \<Longrightarrow> button_fsm pol b (prev \<noteq> 0) (cur \<noteq> 0) (button_actions pol b cur prev)"
  by (cases pol)
    (auto simp: level01_def button_actions_def edge_click_def press_hold_def intro: button_fsm.intros)

lemma fsm_run_alternating:
  "fsm_run pol b p cs as \<Longrightarrow> pol = PressHold \<Longrightarrow> alternating b p as"
proof (induction rule: fsm_run.induct)
  case (run_nil pol b p)
  then show ?case by simp
next
  case (run_cons pol b p c as cs bs)
  then have step: "button_fsm PressHold b p c as" and ih: "alternating b c bs" by simp_all
  from step show ?case
    by cases (use ih in auto)
qed

lemma button_run_Cons:
  "button_run pol st ((L, R) # fs) =
     (let (bs, st'') = button_run pol (st\<lparr>prevL := L, prevR := R\<rparr>) fs
      in (click_handling pol st L R @ bs, st''))"
  by (simp add: button_step_def)

lemma prev_of_update: "prev_of b (st\<lparr>prevL := L, prevR := R\<rparr>) = level_of b (L, R)"
  by (cases b) (simp_all add: prev_of_def)

lemma prev_of_init [simp]: "prev_of b init_state = 0"
  by (cases b) (simp_all add: prev_of_def init_state_def)

section \<open>Properties of the click handling\<close>

text \<open>Refinement: for levels 0 and 1, the actions the code emits for one button over any
  sequence of frames are a run of the spec's per-button machine on the levels read as
  released (0) and pressed (1).\<close>

lemma button_run_fsm:
  assumes "list_all (\<lambda>f. level01 (level_of b f)) fs" and "level01 (prev_of b st)"
  shows "fsm_run pol b (prev_of b st \<noteq> 0) (map (\<lambda>f. level_of b f \<noteq> 0) fs)
           (actions_of b (fst (button_run pol st fs)))"
  using assms
proof (induction fs arbitrary: st)
  case Nil
  then show ?case by (simp add: fsm_run.run_nil)
next
  case (Cons f fs)
  obtain L R where f: "f = (L, R)" by (cases f) auto
  let ?st' = "st\<lparr>prevL := L, prevR := R\<rparr>"
  have prev': "prev_of b ?st' = level_of b f" using f by (simp add: prev_of_update)
  have lv: "level01 (level_of b f)" and rest: "list_all (\<lambda>f. level01 (level_of b f)) fs"
    using Cons.prems(1) by simp_all
  have ih: "fsm_run pol b (level_of b f \<noteq> 0) (map (\<lambda>f. level_of b f \<noteq> 0) fs)
      (actions_of b (fst (button_run pol ?st' fs)))"
  proof -
    have "level01 (prev_of b ?st')" using prev' lv by simp
    from Cons.IH [OF rest this] prev' show ?thesis by simp
  qed
  have step: "button_fsm pol b (prev_of b st \<noteq> 0) (level_of b f \<noteq> 0)
      (button_actions pol b (level_of b f) (prev_of b st))"
    using Cons.prems(2) lv by (rule button_actions_refines)
  have "actions_of b (fst (button_run pol st (f # fs))) =
      button_actions pol b (level_of b f) (prev_of b st) @ actions_of b (fst (button_run pol ?st' fs))"
    using f by (simp add: button_step_def split_beta actions_of_append actions_of_click_handling)
  with step ih show ?case by (simp add: fsm_run.run_cons)
qed

text \<open>C13: for levels 0 and 1, the actions the click handling emits for one button over any sequence of frames are a run of the spec's per-button machine.\<close>

theorem button_run_refines:
  "list_all (\<lambda>f. level01 (level_of b f)) fs \<Longrightarrow> level01 (prev_of b st) \<Longrightarrow>
   fsm_run pol b (prev_of b st \<noteq> 0) (map (\<lambda>f. level_of b f \<noteq> 0) fs)
     (actions_of b (fst (button_run pol st fs)))"
  by (rule button_run_fsm)

theorem button_run_refines_witness:
  "list_all (\<lambda>f. level01 (level_of Left f)) [(0, 0), (1, 0), (1, 0), (0, 0), (1, 0)] \<and>
   level01 (prev_of Left init_state) \<and>
   fsm_run EdgeClick Left False [False, True, True, False, True]
     (actions_of Left (fst (button_run EdgeClick init_state [(0, 0), (1, 0), (1, 0), (0, 0), (1, 0)])))"
proof -
  have h: "list_all (\<lambda>f. level01 (level_of Left f)) [(0, 0), (1, 0), (1, 0), (0, 0), (1, 0)]"
    "level01 (prev_of Left init_state)"
    by (simp_all add: level01_def)
  show ?thesis using h button_run_refines [OF h, of EdgeClick] by simp
qed

text \<open>C15: The state after a run holds the levels of the last frame, whatever the actions were:
  the update of line 71 is unconditional.\<close>

theorem button_run_state:
  "snd (button_run pol st fs) =
     (if fs = [] then st else st\<lparr>prevL := fst (last fs), prevR := snd (last fs)\<rparr>)"
proof (induction fs arbitrary: st)
  case Nil
  then show ?case by simp
next
  case (Cons f fs)
  obtain L R where f: "f = (L, R)" by (cases f) auto
  with Cons.IH show ?case by (simp add: button_run_Cons split_beta button_step_def)
qed

text \<open>C14: In press/hold mode with levels 0 and 1, press and release of a button alternate,
  starting with a press: the button is never pressed twice without a release between.\<close>

theorem press_hold_alternates:
  assumes "list_all (\<lambda>f. level01 (level_of b f)) fs"
  shows "alternating b False (actions_of b (fst (button_run PressHold init_state fs)))"
proof -
  have "level01 (prev_of b init_state)" by (simp add: level01_def)
  with assms have "fsm_run PressHold b False (map (\<lambda>f. level_of b f \<noteq> 0) fs)
      (actions_of b (fst (button_run PressHold init_state fs)))"
    using button_run_fsm [of b fs init_state PressHold] by simp
  then show ?thesis by (rule fsm_run_alternating) simp
qed

theorem press_hold_alternates_witness:
  "list_all (\<lambda>f. level01 (level_of Right f)) [(0, 1), (0, 1), (1, 0)] \<and>
   alternating Right False (actions_of Right (fst (button_run PressHold init_state [(0, 1), (0, 1), (1, 0)])))"
proof -
  have h: "list_all (\<lambda>f. level01 (level_of Right f)) [(0, 1), (0, 1), (1, 0)]"
    by (simp add: level01_def)
  show ?thesis using h press_hold_alternates [OF h] by simp
qed

text \<open>The sequence of the spec (section 8, item 4): the left levels \<open>0, 1, 1, 0, 1\<close>
  under EdgeClick click at the second and the fifth frame only.\<close>

theorem edge_click_spec_sequence:
  "map (\<lambda>n. actions_of Left (fst (button_run EdgeClick init_state (take n [(0, 0), (1, 0), (1, 0), (0, 0), (1, 0)]))))
     [1, 2, 3, 4, 5] =
   [[], [Click Left], [Click Left], [Click Left], [Click Left, Click Left]]"
  by (simp add: button_step_def click_handling_def edge_click_def init_state_def actions_of_def)

text \<open>The spec's PressHold sequence 0,1,1,0 presses at the second frame and releases at the fourth: two actions in four frames.\<close>

theorem press_hold_spec_sequence:
  "map (\<lambda>n. fst (button_run PressHold init_state (take n [(0, 0), (1, 0), (1, 0), (0, 0)]))) [1, 2, 3, 4] =
   [[], [Press Left], [Press Left], [Press Left, Release Left]]"
  by (simp add: button_step_def click_handling_def press_hold_def init_state_def)

section \<open>Lenient levels\<close>

text \<open>C18: The spec reads any non-zero level as pressed, and its machine makes no action
  while a pressed button stays pressed. In press/hold mode the code presses the button
  again whenever its level changes from one non-zero value to another (\<open>L != prevL\<close> and
  \<open>L\<close> truthy, lines 66 and 67): a second press with no release in between.\<close>

theorem press_hold_repress:
  assumes "prev_of b st \<noteq> 0" and "level_of b (L, R) \<noteq> 0" and "level_of b (L, R) \<noteq> prev_of b st"
  shows "actions_of b (fst (button_step PressHold st L R)) = [Press b] \<and> \<not> button_fsm PressHold b True True [Press b]"
  using assms
  by (auto simp: button_step_def actions_of_click_handling button_actions_def press_hold_def elim: fsm_PressHold)

theorem press_hold_repress_witness:
  "prev_of Left \<lparr>prevL = 1, prevR = 0\<rparr> \<noteq> 0 \<and> level_of Left (2, 0) \<noteq> 0 \<and>
   level_of Left (2, 0) \<noteq> prev_of Left \<lparr>prevL = 1, prevR = 0\<rparr> \<and>
   actions_of Left (fst (button_step PressHold \<lparr>prevL = 1, prevR = 0\<rparr> 2 0)) = [Press Left]"
proof -
  have h: "prev_of Left \<lparr>prevL = 1, prevR = 0\<rparr> \<noteq> 0" "level_of Left (2, 0) \<noteq> 0"
    "level_of Left (2, 0) \<noteq> prev_of Left \<lparr>prevL = 1, prevR = 0\<rparr>"
    by (simp_all add: prev_of_def)
  show ?thesis using h press_hold_repress [OF h] by simp
qed

text \<open>C19: Under EdgeClick only the level 1 counts as pressed (\<open>L == 1 and prevL == 0\<close>,
  line 60): a released button reported at any level other than 0 and 1 makes a rising edge of
  the spec's machine, which clicks, but the code clicks nothing.\<close>

theorem edge_click_high_level_missed:
  assumes "prev_of b st = 0" and "level_of b (L, R) \<noteq> 0" and "level_of b (L, R) \<noteq> 1"
  shows "actions_of b (fst (button_step EdgeClick st L R)) = [] \<and> \<not> button_fsm EdgeClick b False True []"
  using assms
  by (auto simp: button_step_def actions_of_click_handling button_actions_def edge_click_def elim: fsm_EdgeClick)

theorem edge_click_high_level_missed_witness:
  "prev_of Left init_state = 0 \<and> level_of Left (2, 0) \<noteq> 0 \<and> level_of Left (2, 0) \<noteq> 1 \<and>
   actions_of Left (fst (button_step EdgeClick init_state 2 0)) = []"
proof -
  have h: "prev_of Left init_state = 0" "level_of Left (2, 0) \<noteq> 0" "level_of Left (2, 0) \<noteq> 1"
    by simp_all
  show ?thesis using h edge_click_high_level_missed [OF h] by simp
qed

end
