(* ===== verification/Py_Float.thy ===== *)
theory Py_Float
  imports Prelude
begin

text \<open>
  The float arithmetic of the motion dispatch of \<open>src/MouseTracking/python_code.py\<close>,
  line 55: \<open>int(dx * SCALE)\<close> with \<open>SCALE = 1.0\<close> (line 18). Python evaluates
  \<open>dx * SCALE\<close> by converting the integer \<open>dx\<close> to a double (\<open>PyLong_AsDouble\<close>):
  the magnitude is rounded to 53 significant bits, ties to even, and a result of
  \<open>2 ^ 1024\<close> or more raises \<open>OverflowError\<close> ("int too large to convert to float").
  The converted value is an integer, represented as such. The product by the float
  \<open>SCALE\<close> is the exact product rounded to a double (53 bits, ties to even, nothing below
  \<open>2 ^ -1074\<close>), infinite from \<open>2 ^ 1024\<close>; \<open>int()\<close> truncates it toward zero and raises
  \<open>OverflowError\<close> on the infinity. The product is modelled for any finite float literal
  \<open>m * 2 ^ e\<close>; with \<open>1.0\<close> it changes nothing up to \<open>2 ^ 53\<close>, and with a power of two
  it scales exactly or truncates.
\<close>

section \<open>Definitions\<close>

datatype py_exc = OverflowError

definition DBL_MANT_DIG :: nat where
  "DBL_MANT_DIG = 53"

definition DBL_MAX_EXP :: nat where
  "DBL_MAX_EXP = 1024"

fun bit_length :: "nat \<Rightarrow> nat" where
  "bit_length n = (if n = 0 then 0 else Suc (bit_length (n div 2)))"

declare bit_length.simps [simp del]

text \<open>Rounding a magnitude to \<open>DBL_MANT_DIG\<close> significant bits, ties to even.\<close>

definition round_to_double :: "nat \<Rightarrow> nat" where
  "round_to_double n =
     (let b = bit_length n in
      if b \<le> DBL_MANT_DIG then n
      else
        let s = b - DBL_MANT_DIG; q = n div 2 ^ s; r = n mod 2 ^ s; h = 2 ^ (s - 1);
            q' = (if h < r \<or> (r = h \<and> odd q) then q + 1 else q)
        in q' * 2 ^ s)"

text \<open>\<open>float(n)\<close> as the integer the double holds, or the \<open>OverflowError\<close>.\<close>

definition py_float_of_int :: "int \<Rightarrow> py_exc + int" where
  "py_float_of_int n =
     (let m = round_to_double (nat \<bar>n\<bar>) in
      if 2 ^ DBL_MAX_EXP \<le> m then Inl OverflowError else Inr (sgn n * int m))"

text \<open>A finite Python float literal as the exact value \<open>m * 2 ^ e\<close> it denotes: \<open>1.0\<close>
  is \<open>Dbl 1 0\<close>, \<open>2.0\<close> is \<open>Dbl 1 1\<close>, \<open>0.5\<close> is \<open>Dbl 1 (-1)\<close>.\<close>

datatype dbl = Dbl int int

text \<open>The smallest positive double is \<open>2 ^ -1074\<close> (subnormal).\<close>

definition DBL_SUBNORMAL_EXP :: nat where
  "DBL_SUBNORMAL_EXP = 1074"

text \<open>The product of two doubles is the exact product rounded to a double, ties to even:
  the magnitude \<open>n * 2 ^ E\<close> keeps its 53 leading bits, and no bit below \<open>2 ^ -1074\<close>.
  The result is \<open>q * 2 ^ E'\<close>.\<close>

definition round_dyadic :: "nat \<Rightarrow> int \<Rightarrow> nat \<times> int" where
  "round_dyadic n E =
     (let s = max (int (bit_length n) - int DBL_MANT_DIG) (- int DBL_SUBNORMAL_EXP - E) in
      if s \<le> 0 then (n, E)
      else
        let k = nat s; q = n div 2 ^ k; r = n mod 2 ^ k; h = 2 ^ (k - 1);
            q' = (if h < r \<or> (r = h \<and> odd q) then q + 1 else q)
        in (q', E + s))"

text \<open>A rounded magnitude of \<open>2 ^ 1024\<close> or more is the infinity.\<close>

definition dyadic_overflows :: "nat \<Rightarrow> int \<Rightarrow> bool" where
  "dyadic_overflows q E = (q \<noteq> 0 \<and> (int DBL_MAX_EXP \<le> E \<or> 2 ^ nat (int DBL_MAX_EXP - E) \<le> q))"

text \<open>\<open>int()\<close> of a finite double truncates toward zero.\<close>

definition trunc_dyadic :: "nat \<Rightarrow> int \<Rightarrow> nat" where
  "trunc_dyadic q E = (if 0 \<le> E then q * 2 ^ nat E else q div 2 ^ nat (- E))"

definition SCALE :: dbl where
  "SCALE = Dbl 1 0"

text \<open>\<open>int(d * s)\<close> for an integer \<open>d\<close> and a float \<open>s\<close>: \<open>d\<close> is converted to a double
  (\<open>OverflowError\<close> from \<open>2 ^ 1024\<close>), the product is rounded, and \<open>int()\<close> of an
  infinite product raises \<open>OverflowError\<close> ("cannot convert float infinity to integer").\<close>

definition scaled_delta :: "dbl \<Rightarrow> int \<Rightarrow> py_exc + int" where
  "scaled_delta s d =
     (case s of Dbl m e \<Rightarrow>
        (case py_float_of_int d of
           Inl x \<Rightarrow> Inl x
         | Inr f \<Rightarrow>
             (let (q, E) = round_dyadic (nat \<bar>f\<bar> * nat \<bar>m\<bar>) e in
              if dyadic_overflows q E then Inl OverflowError
              else Inr (sgn f * sgn m * int (trunc_dyadic q E)))))"

section \<open>Bit length and rounding\<close>

lemma bit_length_0 [simp]: "bit_length 0 = 0"
  by (simp add: bit_length.simps)

lemma bit_length_pos: "0 < n \<Longrightarrow> bit_length n = Suc (bit_length (n div 2))"
  by (simp add: bit_length.simps)

lemma bit_length_upper: "n < 2 ^ bit_length n"
proof (induction n rule: bit_length.induct)
  case (1 n)
  show ?case
  proof (cases "n = 0")
    case True then show ?thesis by simp
  next
    case False
    with "1.IH" have "n div 2 < 2 ^ bit_length (n div 2)" by simp
    with False show ?thesis by (simp add: bit_length_pos)
  qed
qed

lemma bit_length_lower: "0 < n \<Longrightarrow> 2 ^ (bit_length n - 1) \<le> n"
proof (induction n rule: bit_length.induct)
  case (1 n)
  show ?case
  proof (cases "n div 2 = 0")
    case True
    with "1.prems" show ?thesis by (simp add: bit_length_pos)
  next
    case False
    with "1.IH" "1.prems" have "2 ^ (bit_length (n div 2) - 1) \<le> n div 2" by simp
    moreover have "0 < bit_length (n div 2)" using False by (simp add: bit_length_pos)
    moreover have "(2::nat) ^ bit_length (n div 2) = 2 * 2 ^ (bit_length (n div 2) - 1)"
      using \<open>0 < bit_length (n div 2)\<close> by (cases "bit_length (n div 2)") simp_all
    ultimately have "2 ^ bit_length (n div 2) \<le> 2 * (n div 2)"
      by simp
    also have "\<dots> \<le> n" by simp
    finally show ?thesis using "1.prems" by (simp add: bit_length_pos)
  qed
qed

lemma bit_length_le: "n < 2 ^ k \<Longrightarrow> bit_length n \<le> k"
proof (induction n arbitrary: k rule: bit_length.induct)
  case (1 n)
  show ?case
  proof (cases "n = 0")
    case True then show ?thesis by simp
  next
    case False
    then obtain j where k: "k = Suc j" using "1.prems" by (cases k) auto
    with "1.prems" have "n div 2 < 2 ^ j" by simp
    with "1.IH" False have "bit_length (n div 2) \<le> j" by simp
    with False k show ?thesis by (simp add: bit_length_pos)
  qed
qed


lemma bit_length_eq: "2 ^ (k - 1) \<le> n \<Longrightarrow> n < 2 ^ k \<Longrightarrow> 0 < k \<Longrightarrow> bit_length n = k"
proof -
  assume lo: "2 ^ (k - 1) \<le> n" and hi: "n < 2 ^ k" and k: "0 < k"
  have "bit_length n \<le> k" using hi by (rule bit_length_le)
  moreover have "\<not> bit_length n \<le> k - 1"
  proof
    assume "bit_length n \<le> k - 1"
    then have "(2::nat) ^ bit_length n \<le> 2 ^ (k - 1)" by (rule power_increasing) simp
    with bit_length_upper [of n] lo show False by simp
  qed
  ultimately show ?thesis using k by simp
qed

lemma round_to_double_small: "bit_length n \<le> DBL_MANT_DIG \<Longrightarrow> round_to_double n = n"
  by (simp add: round_to_double_def)

lemma round_to_double_low_zero:
  "n mod 2 ^ (bit_length n - DBL_MANT_DIG) = 0 \<Longrightarrow> round_to_double n = n"
  by (auto simp: round_to_double_def Let_def)

lemma round_to_double_exact: "n \<le> 2 ^ DBL_MANT_DIG \<Longrightarrow> round_to_double n = n"
proof (cases "n = 2 ^ DBL_MANT_DIG")
  case True
  have "bit_length n = Suc DBL_MANT_DIG"
    using True by (intro bit_length_eq) simp_all
  with True show ?thesis by (intro round_to_double_low_zero) (simp add: DBL_MANT_DIG_def)
next
  case False
  assume "n \<le> 2 ^ DBL_MANT_DIG"
  with False have "n < 2 ^ DBL_MANT_DIG" by simp
  then show ?thesis by (intro round_to_double_small bit_length_le)
qed

lemma round_to_double_lower:
  assumes b: "DBL_MANT_DIG < bit_length n"
  shows "2 ^ (bit_length n - 1) \<le> round_to_double n"
proof -
  let ?b = "bit_length n"
  let ?s = "?b - DBL_MANT_DIG"
  have n: "2 ^ (?b - 1) \<le> n" using b by (intro bit_length_lower) (cases n, simp_all)
  have e: "?b - 1 = (DBL_MANT_DIG - 1) + ?s"
    using b by (simp add: DBL_MANT_DIG_def)
  have split: "(2::nat) ^ (?b - 1) = 2 ^ (DBL_MANT_DIG - 1) * 2 ^ ?s"
    by (simp only: e power_add)
  have "2 ^ (DBL_MANT_DIG - 1) \<le> n div 2 ^ ?s"
    using n split by (simp add: less_eq_div_iff_mult_less_eq)
  then have "2 ^ (?b - 1) \<le> (n div 2 ^ ?s) * 2 ^ ?s"
    using split by simp
  also have "\<dots> \<le> round_to_double n"
    using b by (simp add: round_to_double_def Let_def)
  finally show ?thesis .
qed

lemma round_to_double_overflow:
  assumes "2 ^ DBL_MAX_EXP \<le> n"
  shows "2 ^ DBL_MAX_EXP \<le> round_to_double n"
proof -
  have "(2::nat) ^ DBL_MAX_EXP < 2 ^ bit_length n"
    using assms bit_length_upper [of n] by (rule le_less_trans)
  then have gt: "DBL_MAX_EXP < bit_length n" by (simp add: power_strict_increasing_iff)
  then have "DBL_MANT_DIG < bit_length n" by (simp add: DBL_MANT_DIG_def DBL_MAX_EXP_def)
  then have "2 ^ (bit_length n - 1) \<le> round_to_double n" by (rule round_to_double_lower)
  moreover have "(2::nat) ^ DBL_MAX_EXP \<le> 2 ^ (bit_length n - 1)"
    using gt by (intro power_increasing) simp_all
  ultimately show ?thesis by (rule order_trans [rotated])
qed

section \<open>The conversion of an integer\<close>

text \<open>Integers of magnitude up to \<open>2 ^ 53\<close> convert exactly.\<close>

lemma py_float_of_int_exact:
  assumes "\<bar>n\<bar> \<le> 2 ^ DBL_MANT_DIG"
  shows "py_float_of_int n = Inr n"
proof -
  have le: "nat \<bar>n\<bar> \<le> 2 ^ DBL_MANT_DIG"
    using assms by (simp add: nat_le_iff)
  then have r: "round_to_double (nat \<bar>n\<bar>) = nat \<bar>n\<bar>" by (rule round_to_double_exact)
  have "(2::nat) ^ DBL_MANT_DIG < 2 ^ DBL_MAX_EXP"
    by (simp add: DBL_MANT_DIG_def DBL_MAX_EXP_def)
  with le have "nat \<bar>n\<bar> < 2 ^ DBL_MAX_EXP" by (rule le_less_trans)
  then have "\<not> 2 ^ DBL_MAX_EXP \<le> nat \<bar>n\<bar>" by (simp only: not_le)
  with r show ?thesis by (simp add: py_float_of_int_def sgn_mult_abs)
qed

text \<open>Integers of magnitude \<open>2 ^ 1024\<close> or more raise \<open>OverflowError\<close>.\<close>

lemma py_float_of_int_overflow:
  assumes "2 ^ DBL_MAX_EXP \<le> \<bar>n\<bar>"
  shows "py_float_of_int n = Inl OverflowError"
proof -
  have "2 ^ DBL_MAX_EXP \<le> nat \<bar>n\<bar>"
    using assms by (simp add: le_nat_iff)
  then have "2 ^ DBL_MAX_EXP \<le> round_to_double (nat \<bar>n\<bar>)" by (rule round_to_double_overflow)
  then show ?thesis by (simp add: py_float_of_int_def)
qed

section \<open>The product by a float\<close>

lemma round_dyadic_small:
  "bit_length n \<le> DBL_MANT_DIG \<Longrightarrow> - int DBL_SUBNORMAL_EXP \<le> E \<Longrightarrow> round_dyadic n E = (n, E)"
  by (simp add: round_dyadic_def)

lemma round_dyadic_2_53:
  "- int DBL_SUBNORMAL_EXP \<le> E \<Longrightarrow> round_dyadic (2 ^ DBL_MANT_DIG) E = (2 ^ (DBL_MANT_DIG - 1), E + 1)"
proof -
  assume E: "- int DBL_SUBNORMAL_EXP \<le> E"
  have b: "bit_length (2 ^ DBL_MANT_DIG) = Suc DBL_MANT_DIG"
    by (intro bit_length_eq) simp_all
  have "(2::nat) ^ DBL_MANT_DIG div 2 = 2 ^ (DBL_MANT_DIG - 1)"
    by (simp add: DBL_MANT_DIG_def)
  with b E show ?thesis by (simp add: round_dyadic_def DBL_MANT_DIG_def DBL_SUBNORMAL_EXP_def Let_def)
qed

lemma pow2_nat_Suc: "0 \<le> e \<Longrightarrow> (2::nat) ^ nat (e + 1) = 2 * 2 ^ nat e"
  by (simp add: nat_add_distrib)

lemma round_dyadic_pow2_scale:
  assumes n: "n \<le> 2 ^ DBL_MANT_DIG" and lo: "- 1021 \<le> e" and hi: "e \<le> 970"
  shows "\<not> dyadic_overflows (fst (round_dyadic n e)) (snd (round_dyadic n e)) \<and>
         trunc_dyadic (fst (round_dyadic n e)) (snd (round_dyadic n e)) =
           (if 0 \<le> e then n * 2 ^ nat e else n div 2 ^ nat (- e))"
proof (cases "n = 2 ^ DBL_MANT_DIG")
  case False
  with n have lt: "n < 2 ^ DBL_MANT_DIG" by simp
  then have "bit_length n \<le> DBL_MANT_DIG" by (rule bit_length_le)
  with lo have r: "round_dyadic n e = (n, e)" by (intro round_dyadic_small) (simp_all add: DBL_SUBNORMAL_EXP_def)
  have "(2::nat) ^ DBL_MANT_DIG \<le> 2 ^ nat (int DBL_MAX_EXP - e)"
    using hi by (intro power_increasing) (simp_all add: DBL_MANT_DIG_def DBL_MAX_EXP_def)
  with lt have "\<not> 2 ^ nat (int DBL_MAX_EXP - e) \<le> n" by (simp only: not_le)
  with hi have "\<not> dyadic_overflows n e" by (simp add: dyadic_overflows_def DBL_MAX_EXP_def)
  with r show ?thesis by (simp add: trunc_dyadic_def)
next
  case True
  have r: "round_dyadic n e = (2 ^ 52, e + 1)"
    using True lo round_dyadic_2_53 [of e] by (simp add: DBL_SUBNORMAL_EXP_def DBL_MANT_DIG_def)
  have "(2::nat) ^ 53 \<le> 2 ^ nat (int DBL_MAX_EXP - (e + 1))"
    using hi by (intro power_increasing) (simp_all add: DBL_MAX_EXP_def)
  then have "\<not> dyadic_overflows (2 ^ 52) (e + 1)"
    using hi by (simp add: dyadic_overflows_def DBL_MAX_EXP_def)
  moreover have "trunc_dyadic (2 ^ 52) (e + 1) = (if 0 \<le> e then n * 2 ^ nat e else n div 2 ^ nat (- e))"
  proof (cases "0 \<le> e")
    case True
    with \<open>n = 2 ^ DBL_MANT_DIG\<close> show ?thesis
      by (simp add: trunc_dyadic_def DBL_MANT_DIG_def pow2_nat_Suc)
  next
    case False
    then obtain k where k: "nat (- e) = Suc k" "nat (- (e + 1)) = k" by (intro that [of "nat (- e) - 1"]) simp_all
    have "(2::nat) ^ 53 div 2 ^ Suc k = 2 ^ 52 div 2 ^ k"
      by (simp add: div_mult2_eq)
    moreover have "0 \<le> e + 1 \<Longrightarrow> k = 0" using k(2) by simp
    ultimately show ?thesis using False k \<open>n = 2 ^ DBL_MANT_DIG\<close>
      by (simp add: trunc_dyadic_def DBL_MANT_DIG_def)
  qed
  ultimately show ?thesis using r by simp
qed

lemma scaled_delta_pow2_eq:
  assumes "- 1021 \<le> e" and "e \<le> 970" and "\<bar>d\<bar> \<le> 2 ^ DBL_MANT_DIG"
  shows "scaled_delta (Dbl 1 e) d = Inr (if 0 \<le> e then d * 2 ^ nat e else sgn d * (\<bar>d\<bar> div 2 ^ nat (- e)))"
proof -
  have f: "py_float_of_int d = Inr d" using assms(3) by (rule py_float_of_int_exact)
  have n: "nat \<bar>d\<bar> \<le> 2 ^ DBL_MANT_DIG" using assms(3) by (simp add: nat_le_iff)
  from round_dyadic_pow2_scale [OF n assms(1,2)] obtain q E where
    r: "round_dyadic (nat \<bar>d\<bar>) e = (q, E)" and ov: "\<not> dyadic_overflows q E" and
    t: "trunc_dyadic q E = (if 0 \<le> e then nat \<bar>d\<bar> * 2 ^ nat e else nat \<bar>d\<bar> div 2 ^ nat (- e))"
    by (cases "round_dyadic (nat \<bar>d\<bar>) e") auto
  have "sgn d * int (nat \<bar>d\<bar> * 2 ^ nat e) = d * 2 ^ nat e"
    by (simp add: mult.assoc [symmetric] sgn_mult_abs)
  moreover have "int (nat \<bar>d\<bar> div 2 ^ nat (- e)) = \<bar>d\<bar> div 2 ^ nat (- e)"
    by (simp add: zdiv_int)
  ultimately show ?thesis
    using f r ov t by (simp add: scaled_delta_def)
qed

lemma scaled_delta_exact: "\<bar>d\<bar> \<le> 2 ^ DBL_MANT_DIG \<Longrightarrow> scaled_delta SCALE d = Inr d"
  using scaled_delta_pow2_eq [of 0 d] by (simp add: SCALE_def)

lemma scaled_delta_overflow: "2 ^ DBL_MAX_EXP \<le> \<bar>d\<bar> \<Longrightarrow> scaled_delta s d = Inl OverflowError"
  by (cases s) (simp add: scaled_delta_def py_float_of_int_overflow)

lemma scaled_delta_Inl: "scaled_delta s d = Inl x \<Longrightarrow> x = OverflowError"
  by (auto simp: scaled_delta_def py_float_of_int_def Let_def split: dbl.splits if_splits prod.splits)

lemma scaled_delta_cases:
  obtains "scaled_delta s d = Inl OverflowError" | r where "scaled_delta s d = Inr r"
  using scaled_delta_Inl by (cases "scaled_delta s d") auto

section \<open>The exact overflow threshold\<close>

text \<open>\<open>float(n)\<close> overflows exactly from \<open>2 ^ 1024 - 2 ^ 970\<close>: the largest double is
  \<open>(2 ^ 53 - 1) * 2 ^ 971\<close>, and the midpoint between it and \<open>2 ^ 1024\<close> rounds to the
  even neighbour \<open>2 ^ 1024\<close>, the overflow. The product by \<open>SCALE = 1.0\<close> adds no overflow
  of its own.\<close>

lemma pow2_1023_le_top: "(2::nat) ^ 1023 \<le> 2 ^ 1024 - 2 ^ 970"
  by simp

lemma bit_length_top_range: "2 ^ 1024 - 2 ^ 970 \<le> m \<Longrightarrow> m < (2::nat) ^ 1024 \<Longrightarrow> bit_length m = 1024"
proof -
  assume lo: "2 ^ 1024 - 2 ^ 970 \<le> m" and hi: "m < (2::nat) ^ 1024"
  have e: "(1024::nat) - 1 = 1023" by simp
  have l: "(2::nat) ^ (1024 - 1) \<le> m" unfolding e by (rule order_trans [OF pow2_1023_le_top lo])
  show ?thesis by (rule bit_length_eq [OF l hi]) simp
qed

lemma div_eq_by_bounds: "q * d \<le> m \<Longrightarrow> m < (q + 1) * (d::nat) \<Longrightarrow> m div d = q"
  by (rule div_nat_eqI) (simp_all add: mult.commute)

lemma top_quot_le: "(2 ^ 53 - 1) * 2 ^ 971 \<le> (2::nat) ^ 1024 - 2 ^ 970" by simp
lemma top_pow_split: "(2::nat) ^ 1024 = (2 ^ 53 - 1 + 1) * 2 ^ 971" by simp
lemma top_mod_sum: "(2::nat) ^ 970 + (2 ^ 53 - 1) * 2 ^ 971 = 2 ^ 1024 - 2 ^ 970" by simp
lemma top_range_div: "2 ^ 1024 - 2 ^ 970 \<le> m \<Longrightarrow> m < (2::nat) ^ 1024 \<Longrightarrow> m div 2 ^ 971 = 2 ^ 53 - 1"
proof -
  assume lo: "2 ^ 1024 - 2 ^ 970 \<le> m" and hi: "m < (2::nat) ^ 1024"
  show ?thesis using order_trans [OF top_quot_le lo] hi [unfolded top_pow_split] by (rule div_eq_by_bounds)
qed
lemma top_range_mod: "2 ^ 1024 - 2 ^ 970 \<le> m \<Longrightarrow> m < (2::nat) ^ 1024 \<Longrightarrow> 2 ^ 970 \<le> m mod 2 ^ 971"
proof -
  assume lo: "2 ^ 1024 - 2 ^ 970 \<le> m" and hi: "m < (2::nat) ^ 1024"
  have k4: "(2 ^ 53 - 1) * 2 ^ 971 \<le> m" using order_trans [OF top_quot_le lo] .
  have "(2::nat) ^ 970 \<le> m - (2 ^ 53 - 1) * 2 ^ 971"
    using lo unfolding le_diff_conv2 [OF k4] top_mod_sum .
  then show ?thesis
    using minus_div_mult_eq_mod [of m "2 ^ 971"] top_range_div [OF lo hi] by simp
qed

lemma round_to_double_top:
  assumes lo: "2 ^ 1024 - 2 ^ 970 \<le> m" and hi: "m < (2::nat) ^ 1024"
  shows "round_to_double m = 2 ^ 1024"
proof -
  have b: "bit_length m = 1024" using lo hi by (rule bit_length_top_range)
  have q: "m div 2 ^ 971 = 2 ^ 53 - 1" using lo hi by (rule top_range_div)
  have r: "2 ^ 970 \<le> m mod 2 ^ 971" using lo hi by (rule top_range_mod)
  have o: "odd ((2::nat) ^ 53 - 1)" by simp
  have e: "(971::nat) - 1 = 970" by simp
  have c: "2 ^ (971 - 1) < m mod 2 ^ 971 \<or> (m mod 2 ^ 971 = 2 ^ (971 - 1) \<and> odd (m div 2 ^ 971))"
    unfolding e q using r o by (auto simp only: order.order_iff_strict)
  have s: "bit_length m - DBL_MANT_DIG = 971" using b by (simp add: DBL_MANT_DIG_def)
  have n: "\<not> bit_length m \<le> DBL_MANT_DIG" using b by (simp add: DBL_MANT_DIG_def)
  have "round_to_double m = (m div 2 ^ 971 + 1) * 2 ^ 971"
    using n c by (simp only: round_to_double_def Let_def s if_False if_True)
  also have "\<dots> = 2 ^ 1024" unfolding q by simp
  finally show ?thesis .
qed

lemma round_to_double_le_next:
  assumes "DBL_MANT_DIG < bit_length m"
  shows "round_to_double m \<le> (m div 2 ^ (bit_length m - DBL_MANT_DIG) + 1) * 2 ^ (bit_length m - DBL_MANT_DIG)"
  using assms by (auto simp: round_to_double_def Let_def)

lemma round_to_double_quot_bound:
  assumes "DBL_MANT_DIG < bit_length m"
  shows "m div 2 ^ (bit_length m - DBL_MANT_DIG) < 2 ^ DBL_MANT_DIG"
proof -
  have "2 ^ bit_length m = (2::nat) ^ DBL_MANT_DIG * 2 ^ (bit_length m - DBL_MANT_DIG)"
    using assms by (simp add: power_add [symmetric])
  with bit_length_upper [of m] show ?thesis by (simp add: div_less_iff_less_mult)
qed

lemma round_to_double_below_top:
  assumes lo: "m < (2::nat) ^ 1024 - 2 ^ 970"
  shows "round_to_double m \<le> (2 ^ 53 - 1) * 2 ^ 971"
proof (cases "DBL_MANT_DIG < bit_length m")
  case False
  then have r: "round_to_double m = m" by (intro round_to_double_small) simp
  have "m < 2 ^ bit_length m" by (rule bit_length_upper)
  also have "\<dots> \<le> 2 ^ DBL_MANT_DIG" using False by (intro power_increasing) simp_all
  also have "(2::nat) ^ DBL_MANT_DIG \<le> (2 ^ 53 - 1) * 2 ^ 971" by (simp add: DBL_MANT_DIG_def)
  finally show ?thesis using r by simp
next
  case True
  let ?s = "bit_length m - DBL_MANT_DIG"
  have m1024: "m < 2 ^ 1024" using lo by (rule less_le_trans) simp
  then have ble: "bit_length m \<le> 1024" by (rule bit_length_le)
  have qb: "m div 2 ^ ?s < 2 ^ DBL_MANT_DIG" using True by (rule round_to_double_quot_bound)
  show ?thesis
  proof (cases "bit_length m < 1024")
    case True
    have "round_to_double m \<le> (m div 2 ^ ?s + 1) * 2 ^ ?s"
      using \<open>DBL_MANT_DIG < bit_length m\<close> by (rule round_to_double_le_next)
    also have "\<dots> \<le> 2 ^ DBL_MANT_DIG * 2 ^ ?s" using qb by (intro mult_right_mono) simp_all
    also have "\<dots> = 2 ^ bit_length m"
      using \<open>DBL_MANT_DIG < bit_length m\<close> by (simp add: power_add [symmetric])
    also have "\<dots> \<le> 2 ^ 1023" using True by (intro power_increasing) simp_all
    also have "(2::nat) ^ 1023 \<le> (2 ^ 53 - 1) * 2 ^ 971" by simp
    finally show ?thesis .
  next
    case False
    with ble have b: "bit_length m = 1024" by simp
    have s: "?s = 971" using b by (simp add: DBL_MANT_DIG_def)
    have n: "\<not> bit_length m \<le> DBL_MANT_DIG" using b by (simp add: DBL_MANT_DIG_def)
    have qb': "m div 2 ^ 971 \<le> 2 ^ 53 - 1" using qb unfolding s by (simp add: DBL_MANT_DIG_def)
    show ?thesis
    proof (cases "m div 2 ^ 971 = 2 ^ 53 - 1")
      case False
      with qb' have "m div 2 ^ 971 + 1 \<le> 2 ^ 53 - 1" by simp
      then have "(m div 2 ^ 971 + 1) * 2 ^ 971 \<le> (2 ^ 53 - 1) * (2::nat) ^ 971" by (rule mult_right_mono) simp
      moreover have "round_to_double m \<le> (m div 2 ^ 971 + 1) * 2 ^ 971"
        using round_to_double_le_next [OF \<open>DBL_MANT_DIG < bit_length m\<close>] unfolding s .
      ultimately show ?thesis by linarith
    next
      case True
      have top_mod_sum: "(2 ^ 53 - 1) * (2::nat) ^ 971 + 2 ^ 970 = 2 ^ 1024 - 2 ^ 970" by simp
      have "(2 ^ 53 - 1) * 2 ^ 971 + m mod 2 ^ 971 = m"
        using div_mult_mod_eq [of m "2 ^ 971", unfolded True] .
      with lo top_mod_sum have r: "m mod 2 ^ 971 < 2 ^ 970" by linarith
      have e: "(971::nat) - 1 = 970" by simp
      have c: "\<not> (2 ^ (971 - 1) < m mod 2 ^ 971 \<or> (m mod 2 ^ 971 = 2 ^ (971 - 1) \<and> odd (m div 2 ^ 971)))"
        unfolding e using r by simp
      have "round_to_double m = m div 2 ^ 971 * 2 ^ 971"
        using n c by (simp only: round_to_double_def Let_def s if_False if_True)
      also have "\<dots> = (2 ^ 53 - 1) * 2 ^ 971" unfolding True ..
      finally show ?thesis by simp
    qed
  qed
qed

lemma round_dyadic_zero:
  "round_dyadic n 0 = (q, E) \<Longrightarrow> 0 \<le> E \<and> q * 2 ^ nat E = round_to_double n"
  by (auto simp: round_dyadic_def round_to_double_def Let_def DBL_SUBNORMAL_EXP_def DBL_MANT_DIG_def
        nat_diff_distrib split: if_splits)

lemma dyadic_overflows_value:
  assumes "0 \<le> E" and "dyadic_overflows q E"
  shows "2 ^ DBL_MAX_EXP \<le> q * 2 ^ nat E"
proof (cases "int DBL_MAX_EXP \<le> E")
  case True
  with assms have "q \<noteq> 0" by (simp add: dyadic_overflows_def)
  then have "2 ^ nat E \<le> q * 2 ^ nat E" by simp
  moreover have "(2::nat) ^ DBL_MAX_EXP \<le> 2 ^ nat E" using True by (intro power_increasing) simp_all
  ultimately show ?thesis by linarith
next
  case False
  with assms have q: "2 ^ nat (int DBL_MAX_EXP - E) \<le> q" by (simp add: dyadic_overflows_def)
  have "(2::nat) ^ DBL_MAX_EXP = 2 ^ nat (int DBL_MAX_EXP - E) * 2 ^ nat E"
    using False assms(1) by (simp add: power_add [symmetric] nat_diff_distrib')
  also have "\<dots> \<le> q * 2 ^ nat E" using q by simp
  finally show ?thesis .
qed

lemma round_to_double_overflow_iff:
  "2 ^ DBL_MAX_EXP \<le> round_to_double m \<longleftrightarrow> 2 ^ 1024 - 2 ^ 970 \<le> m"
proof (cases "2 ^ 1024 - 2 ^ 970 \<le> m")
  case True
  show ?thesis
  proof (cases "m < 2 ^ 1024")
    case True
    with \<open>2 ^ 1024 - 2 ^ 970 \<le> m\<close> show ?thesis by (simp add: round_to_double_top DBL_MAX_EXP_def)
  next
    case False
    then have "2 ^ DBL_MAX_EXP \<le> m" by (simp add: DBL_MAX_EXP_def)
    then show ?thesis using \<open>2 ^ 1024 - 2 ^ 970 \<le> m\<close> by (simp add: round_to_double_overflow)
  qed
next
  case False
  then have "round_to_double m \<le> (2 ^ 53 - 1) * 2 ^ 971" by (intro round_to_double_below_top) simp
  moreover have "(2 ^ 53 - 1) * (2::nat) ^ 971 < 2 ^ DBL_MAX_EXP" by (simp add: DBL_MAX_EXP_def)
  ultimately show ?thesis using False by simp
qed

lemma py_float_of_int_overflow_iff:
  "py_float_of_int n = Inl OverflowError \<longleftrightarrow> 2 ^ 1024 - 2 ^ 970 \<le> \<bar>n\<bar>"
proof -
  have "(2 ^ 1024 - 2 ^ 970 \<le> nat \<bar>n\<bar>) = (2 ^ 1024 - 2 ^ 970 \<le> \<bar>n\<bar>)"
    by (simp add: le_nat_iff)
  then show ?thesis
    using round_to_double_overflow_iff [of "nat \<bar>n\<bar>"] by (simp add: py_float_of_int_def)
qed

lemma scaled_delta_SCALE_overflow_iff:
  "scaled_delta SCALE d = Inl OverflowError \<longleftrightarrow> 2 ^ 1024 - 2 ^ 970 \<le> \<bar>d\<bar>"
proof (cases "2 ^ 1024 - 2 ^ 970 \<le> \<bar>d\<bar>")
  case True
  then have "py_float_of_int d = Inl OverflowError" by (simp add: py_float_of_int_overflow_iff)
  with True show ?thesis by (simp add: scaled_delta_def SCALE_def)
next
  case False
  let ?r = "round_to_double (nat \<bar>d\<bar>)"
  have f: "py_float_of_int d = Inr (sgn d * int ?r)"
    using False py_float_of_int_overflow_iff [of d]
    by (auto simp: py_float_of_int_def Let_def split: if_splits)
  have "nat \<bar>d\<bar> < 2 ^ 1024 - 2 ^ 970" using False by (simp add: nat_less_iff)
  then have "?r \<le> (2 ^ 53 - 1) * 2 ^ 971" by (rule round_to_double_below_top)
  also have "\<dots> < 2 ^ 1024 - 2 ^ 970" by simp
  finally have "round_to_double ?r < 2 ^ DBL_MAX_EXP"
    using round_to_double_overflow_iff [of ?r] by (simp add: not_le [symmetric])
  moreover obtain q E where qE: "round_dyadic ?r 0 = (q, E)" by fastforce
  ultimately have "\<not> dyadic_overflows q E"
    using round_dyadic_zero [OF qE] dyadic_overflows_value [of E q] by auto
  moreover have "nat \<bar>sgn d * int ?r\<bar> = ?r" by (simp add: abs_mult sgn_if round_to_double_def)
  ultimately show ?thesis
    using f qE False by (simp add: scaled_delta_def SCALE_def)
qed

text \<open>C40: A scale that is a power of two, \<open>2 ^ e\<close> with \<open>-1021 \<le> e \<le> 970\<close>, multiplies
  every delta up to \<open>2 ^ 53\<close> exactly when \<open>e \<ge> 0\<close> (\<open>SCALE = 2.0\<close> sends \<open>3\<close> to
  \<open>6\<close>, spec section 8.6), and divides it truncating toward zero when \<open>e < 0\<close>
  (\<open>SCALE = 0.5\<close> sends \<open>-3\<close> to \<open>-1\<close> and \<open>1\<close> to \<open>0\<close>); \<open>SCALE = 1.0\<close> leaves it
  unchanged.\<close>

theorem scaled_delta_pow2:
  assumes "- 1021 \<le> e" and "e \<le> 970" and "\<bar>d\<bar> \<le> 2 ^ DBL_MANT_DIG"
  shows "scaled_delta (Dbl 1 e) d = Inr (if 0 \<le> e then d * 2 ^ nat e else sgn d * (\<bar>d\<bar> div 2 ^ nat (- e)))"
  using assms by (rule scaled_delta_pow2_eq)

theorem scaled_delta_pow2_witness:
  "scaled_delta (Dbl 1 1) 3 = Inr 6 \<and> scaled_delta (Dbl 1 1) (-2) = Inr (-4) \<and>
   scaled_delta (Dbl 1 (-1)) (-3) = Inr (-1) \<and> scaled_delta (Dbl 1 (-1)) 1 = Inr 0"
proof -
  have h: "- 1021 \<le> (1::int)" "(1::int) \<le> 970" "- 1021 \<le> (-1::int)" "(-1::int) \<le> 970"
    "\<bar>3::int\<bar> \<le> 2 ^ DBL_MANT_DIG" "\<bar>-2::int\<bar> \<le> 2 ^ DBL_MANT_DIG"
    "\<bar>-3::int\<bar> \<le> 2 ^ DBL_MANT_DIG" "\<bar>1::int\<bar> \<le> 2 ^ DBL_MANT_DIG"
    by (simp_all add: DBL_MANT_DIG_def)
  show ?thesis
    using scaled_delta_pow2 [OF h(1,2,5)] scaled_delta_pow2 [OF h(1,2,6)]
      scaled_delta_pow2 [OF h(3,4,7)] scaled_delta_pow2 [OF h(3,4,8)]
    by simp
qed

end
