(* ===== verification/Motion.thy ===== *)
theory Motion
  imports Buttons Py_Float
begin

text \<open>
  The motion dispatch of \<open>main()\<close> in \<open>src/MouseTracking/python_code.py\<close>, lines 53 to
  55: when \<open>dx != 0 or dy != 0\<close>, \<open>mouse.move(int(dx * SCALE), int(dy * SCALE))\<close>.
  The arguments are evaluated left to right, so an \<open>OverflowError\<close> of \<open>dx * SCALE\<close>
  comes before \<open>dy * SCALE\<close> is computed; either error leaves the loop (nothing in
  \<open>main\<close> catches it) before any pointer call is made for the frame.
\<close>

section \<open>Definition\<close>

text \<open>Lines 53 to 55 for a scale \<open>s\<close>; the program runs them with \<open>SCALE\<close>.\<close>

definition motion_with :: "dbl \<Rightarrow> int \<Rightarrow> int \<Rightarrow> py_exc + action list" where
  "motion_with s dx dy =
     (if (dx, dy) = (0, 0) then Inr []
      else
        (case scaled_delta s dx of
           Inl e \<Rightarrow> Inl e
         | Inr mx \<Rightarrow> (case scaled_delta s dy of Inl e \<Rightarrow> Inl e | Inr my \<Rightarrow> Inr [Move mx my])))"

definition motion :: "int \<Rightarrow> int \<Rightarrow> py_exc + action list" where
  "motion dx dy = motion_with SCALE dx dy"

section \<open>Properties of the motion dispatch\<close>

text \<open>C20: Deltas up to \<open>2 ^ 53\<close> in magnitude: a zero motion makes no call, any other makes
  exactly one \<open>move\<close> with the deltas unchanged (\<open>SCALE = 1.0\<close>).\<close>

theorem motion_exact:
  assumes "\<bar>dx\<bar> \<le> 2 ^ DBL_MANT_DIG" and "\<bar>dy\<bar> \<le> 2 ^ DBL_MANT_DIG"
  shows "motion dx dy = (if (dx, dy) = (0, 0) then Inr [] else Inr [Move dx dy])"
  using assms by (simp add: motion_def motion_with_def scaled_delta_exact)

theorem motion_exact_witness:
  "\<bar>3::int\<bar> \<le> 2 ^ DBL_MANT_DIG \<and> \<bar>-2::int\<bar> \<le> 2 ^ DBL_MANT_DIG \<and> motion 3 (-2) = Inr [Move 3 (-2)] \<and>
   \<bar>0::int\<bar> \<le> 2 ^ DBL_MANT_DIG \<and> motion 0 0 = Inr []"
proof -
  have h: "\<bar>3::int\<bar> \<le> 2 ^ DBL_MANT_DIG" "\<bar>-2::int\<bar> \<le> 2 ^ DBL_MANT_DIG" "\<bar>0::int\<bar> \<le> 2 ^ DBL_MANT_DIG"
    by (simp_all add: DBL_MANT_DIG_def)
  show ?thesis using h motion_exact [OF h(1,2)] motion_exact [OF h(3,3)] by simp
qed

text \<open>A delta of magnitude \<open>2 ^ 1024\<close> or more, in either coordinate, raises
  \<open>OverflowError\<close> and no pointer call is made.\<close>

lemma motion_overflow_error:
  assumes "2 ^ DBL_MAX_EXP \<le> \<bar>dx\<bar> \<or> 2 ^ DBL_MAX_EXP \<le> \<bar>dy\<bar>"
  shows "motion dx dy = Inl OverflowError"
proof -
  have nz: "(dx, dy) \<noteq> (0, 0)" using assms by auto
  show ?thesis
  proof (cases "2 ^ DBL_MAX_EXP \<le> \<bar>dx\<bar>")
    case True
    with nz show ?thesis by (simp add: motion_def motion_with_def scaled_delta_overflow)
  next
    case False
    from False assms have dy: "scaled_delta SCALE dy = Inl OverflowError"
      by (simp add: scaled_delta_overflow)
    show ?thesis
    proof (cases "scaled_delta SCALE dx")
      case (Inl e)
      then have "scaled_delta SCALE dx = Inl OverflowError" by (cases e) simp
      with nz show ?thesis by (simp add: motion_def motion_with_def)
    next
      case (Inr mx)
      with nz dy show ?thesis by (simp add: motion_def motion_with_def)
    qed
  qed
qed

text \<open>A delta of magnitude \<open>2 ^ 1024\<close> or more in either coordinate raises OverflowError.\<close>

theorem motion_overflow:
  "2 ^ DBL_MAX_EXP \<le> \<bar>dx\<bar> \<or> 2 ^ DBL_MAX_EXP \<le> \<bar>dy\<bar> \<Longrightarrow> motion dx dy = Inl OverflowError"
  by (rule motion_overflow_error)

theorem motion_overflow_witness:
  "(2 ^ DBL_MAX_EXP \<le> \<bar>0::int\<bar> \<or> 2 ^ DBL_MAX_EXP \<le> \<bar>2 ^ 1024::int\<bar>) \<and>
   motion 0 (2 ^ 1024) = Inl OverflowError"
proof -
  have h: "2 ^ DBL_MAX_EXP \<le> \<bar>0::int\<bar> \<or> 2 ^ DBL_MAX_EXP \<le> \<bar>2 ^ 1024::int\<bar>"
    by (simp add: DBL_MAX_EXP_def)
  show ?thesis using h motion_overflow [OF h] by simp
qed

text \<open>The zero guard of line 54 tests the deltas before they are scaled. With a scale below
  1 a small motion is scaled to nothing and still makes a call: with \<open>SCALE = 0.5\<close> the
  frame \<open>1,0,0,0\<close> calls \<open>mouse.move(0, 0)\<close>, which spec section 4.2 excludes (no call
  when both pixel deltas are zero).\<close>

lemma motion_half_scale_zero_move: "motion_with (Dbl 1 (-1)) 1 0 = Inr [Move 0 0]"
  using scaled_delta_pow2_eq [of "-1" 1] scaled_delta_pow2_eq [of "-1" 0]
  by (simp add: motion_with_def DBL_MANT_DIG_def)

text \<open>The motion dispatch raises exactly from the threshold of \<open>float()\<close>.\<close>

lemma motion_Inl_iff:
  "motion dx dy = Inl OverflowError \<longleftrightarrow> 2 ^ 1024 - 2 ^ 970 \<le> \<bar>dx\<bar> \<or> 2 ^ 1024 - 2 ^ 970 \<le> \<bar>dy\<bar>"
proof (cases "2 ^ 1024 - 2 ^ 970 \<le> \<bar>dx\<bar>")
  case True
  then have "scaled_delta SCALE dx = Inl OverflowError"
    by (simp only: scaled_delta_SCALE_overflow_iff)
  moreover from True have "(dx, dy) \<noteq> (0, 0)" by auto
  ultimately show ?thesis using True by (simp add: motion_def motion_with_def)
next
  case False
  then obtain mx where mx: "scaled_delta SCALE dx = Inr mx"
    using scaled_delta_SCALE_overflow_iff [of dx] by (cases rule: scaled_delta_cases [of SCALE dx]) auto
  show ?thesis
  proof (cases "2 ^ 1024 - 2 ^ 970 \<le> \<bar>dy\<bar>")
    case True
    then have "scaled_delta SCALE dy = Inl OverflowError"
      by (simp only: scaled_delta_SCALE_overflow_iff)
    moreover from True have "(dx, dy) \<noteq> (0, 0)" by auto
    ultimately show ?thesis using True mx by (simp add: motion_def motion_with_def)
  next
    case False
    then obtain my where "scaled_delta SCALE dy = Inr my"
      using scaled_delta_SCALE_overflow_iff [of dy] by (cases rule: scaled_delta_cases [of SCALE dy]) auto
    with mx False \<open>\<not> 2 ^ 1024 - 2 ^ 970 \<le> \<bar>dx\<bar>\<close> show ?thesis
      by (simp add: motion_def motion_with_def)
  qed
qed

text \<open>C21: The motion dispatch raises \<open>OverflowError\<close> exactly when a delta has magnitude
  \<open>2 ^ 1024 - 2 ^ 970\<close> or more (309 decimal digits); every smaller frame is dispatched.\<close>

theorem motion_overflow_iff:
  "motion dx dy = Inl OverflowError \<longleftrightarrow> 2 ^ 1024 - 2 ^ 970 \<le> \<bar>dx\<bar> \<or> 2 ^ 1024 - 2 ^ 970 \<le> \<bar>dy\<bar>"
  by (rule motion_Inl_iff)

end
