(* ===== verification/Utf8.thy ===== *)
theory Utf8
  imports Prelude
begin

text \<open>
  \<open>bytes.decode(errors="ignore")\<close>, the conversion of the bytes \<open>ser.readline()\<close>
  returns into a string in \<open>src/MouseTracking/python_code.py\<close>, line 36. The codec is
  UTF-8 (Python's default) as CPython 3.11 implements it (\<open>Objects/stringlib/codecs.h\<close>):
  a byte below \<open>0x80\<close> is one character; \<open>0xC2\<close> to \<open>0xDF\<close> start a two-byte
  sequence, \<open>0xE0\<close> to \<open>0xEF\<close> a three-byte one, \<open>0xF0\<close> to \<open>0xF4\<close> a four-byte one,
  with the second byte restricted after \<open>0xE0\<close> (\<open>0xA0\<close> to \<open>0xBF\<close>), \<open>0xED\<close>
  (\<open>0x80\<close> to \<open>0x9F\<close>), \<open>0xF0\<close> (\<open>0x90\<close> to \<open>0xBF\<close>) and \<open>0xF4\<close> (\<open>0x80\<close> to
  \<open>0x8F\<close>), so that overlong forms, surrogates and code points beyond \<open>0x10FFFF\<close> are
  invalid. With \<open>errors="ignore"\<close> an invalid sequence is dropped: its longest valid
  prefix (at least the first byte) is skipped and decoding resumes after it; a sequence cut
  by the end of the data is dropped whole.
\<close>

section \<open>Definitions\<close>

definition is_cont :: "byte \<Rightarrow> bool" where
  "is_cont c = (0x80 \<le> unat c \<and> unat c \<le> 0xBF)"

text \<open>Is \<open>c\<close> a valid second byte after the lead byte \<open>x\<close> of a three- or four-byte
  sequence?\<close>

definition second_ok :: "nat \<Rightarrow> byte \<Rightarrow> bool" where
  "second_ok x c =
     (if x = 0xE0 then 0xA0 \<le> unat c \<and> unat c \<le> 0xBF
      else if x = 0xED then 0x80 \<le> unat c \<and> unat c \<le> 0x9F
      else if x = 0xF0 then 0x90 \<le> unat c \<and> unat c \<le> 0xBF
      else if x = 0xF4 then 0x80 \<le> unat c \<and> unat c \<le> 0x8F
      else is_cont c)"

definition cont_bits :: "byte \<Rightarrow> nat" where
  "cont_bits c = unat c - 0x80"

fun utf8_decode :: "byte list \<Rightarrow> pystr" where
  "utf8_decode [] = []"
| "utf8_decode (b # bs) =
     (let x = unat b in
      if x < 0x80 then x # utf8_decode bs
      else if 0xC2 \<le> x \<and> x \<le> 0xDF then
        (case bs of
           [] \<Rightarrow> []
         | c # bs1 \<Rightarrow>
             if is_cont c then ((x - 0xC0) * 64 + cont_bits c) # utf8_decode bs1
             else utf8_decode bs)
      else if 0xE0 \<le> x \<and> x \<le> 0xEF then
        (case bs of
           [] \<Rightarrow> []
         | c1 # bs1 \<Rightarrow>
             if \<not> second_ok x c1 then utf8_decode bs
             else (case bs1 of
                     [] \<Rightarrow> []
                   | c2 # bs2 \<Rightarrow>
                       if is_cont c2
                       then ((x - 0xE0) * 4096 + cont_bits c1 * 64 + cont_bits c2) # utf8_decode bs2
                       else utf8_decode bs1))
      else if 0xF0 \<le> x \<and> x \<le> 0xF4 then
        (case bs of
           [] \<Rightarrow> []
         | c1 # bs1 \<Rightarrow>
             if \<not> second_ok x c1 then utf8_decode bs
             else (case bs1 of
                     [] \<Rightarrow> []
                   | c2 # bs2 \<Rightarrow>
                       if \<not> is_cont c2 then utf8_decode bs1
                       else (case bs2 of
                               [] \<Rightarrow> []
                             | c3 # bs3 \<Rightarrow>
                                 if is_cont c3
                                 then ((x - 0xF0) * 262144 + cont_bits c1 * 4096 + cont_bits c2 * 64
                                        + cont_bits c3) # utf8_decode bs3
                                 else utf8_decode bs2)))
      else utf8_decode bs)"

text \<open>The encoder of the device side: a Unicode scalar value (not a surrogate, at most
  \<open>0x10FFFF\<close>) as its UTF-8 bytes. It is the inverse the decoder is checked against.\<close>

definition scalar_value :: "codepoint \<Rightarrow> bool" where
  "scalar_value c = (c \<le> 0x10FFFF \<and> \<not> (0xD800 \<le> c \<and> c \<le> 0xDFFF))"

definition byte_of :: "nat \<Rightarrow> byte" where
  "byte_of n = of_nat n"

definition utf8_encode :: "codepoint \<Rightarrow> byte list" where
  "utf8_encode c =
     (if c < 0x80 then [byte_of c]
      else if c < 0x800 then [byte_of (0xC0 + c div 64), byte_of (0x80 + c mod 64)]
      else if c < 0x10000 then
        [byte_of (0xE0 + c div 4096), byte_of (0x80 + c div 64 mod 64), byte_of (0x80 + c mod 64)]
      else [byte_of (0xF0 + c div 262144), byte_of (0x80 + c div 4096 mod 64),
            byte_of (0x80 + c div 64 mod 64), byte_of (0x80 + c mod 64)])"

section \<open>Lemmas\<close>

lemma unat_byte_of: "n < 256 \<Longrightarrow> unat (byte_of n) = n"
  by (simp add: byte_of_def unat_of_nat)

lemma cont_byte: "is_cont (byte_of (0x80 + k mod 64))" "cont_bits (byte_of (0x80 + k mod 64)) = k mod 64"
  by (simp_all add: is_cont_def cont_bits_def unat_byte_of)

lemma div64_split: "(c::nat) div n = c div (n * 64) * 64 + c div n mod 64"
  using div_mult_mod_eq [of "c div n" 64] by (simp add: div_mult2_eq)

lemma decode_encode_1: "c < 0x80 \<Longrightarrow> utf8_decode (utf8_encode c @ rest) = c # utf8_decode rest"
  by (simp add: utf8_encode_def unat_byte_of)

lemma decode_encode_2:
  assumes "0x80 \<le> c" "c < 0x800"
  shows "utf8_decode (utf8_encode c @ rest) = c # utf8_decode rest"
proof -
  have x: "unat (byte_of (0xC0 + c div 64)) = 0xC0 + c div 64"
    using assms by (intro unat_byte_of) simp
  have r: "0xC2 \<le> 0xC0 + c div 64" "0xC0 + c div 64 \<le> (0xDF::nat)" using assms by simp_all
  show ?thesis using assms x r cont_byte [of c] by (simp add: utf8_encode_def Let_def)
qed

lemma decode_encode_3:
  assumes "0x800 \<le> c" "c < 0x10000" "scalar_value c"
  shows "utf8_decode (utf8_encode c @ rest) = c # utf8_decode rest"
proof -
  let ?x = "0xE0 + c div 4096"
  have x: "unat (byte_of ?x) = ?x" using assms by (intro unat_byte_of) simp
  have r: "0xE0 \<le> ?x" "?x \<le> (0xEF::nat)" using assms by simp_all
  have parts: "c div 64 = (c div 4096) * 64 + c div 64 mod 64"
    using div_mult_mod_eq [of "c div 64" 64] by (simp add: div_mult2_eq [symmetric])
  have ge: "32 \<le> c div 64" using assms(1) by (simp add: less_eq_div_iff_mult_less_eq)
  have lt: "c < 55296 \<Longrightarrow> c div 64 < 864" by (simp add: div_less_iff_less_mult)
  have lo: "c div 4096 = 0 \<Longrightarrow> 32 \<le> c div 64 mod 64" using parts ge by simp
  have hi: "c div 64 mod 64 \<le> 31" if h13: "c div 4096 = 13"
  proof -
    from h13 have "c div 4096 < 14" by simp
    then have "c < 57344" by (simp add: div_less_iff_less_mult)
    with assms(3) have "c < 55296" by (auto simp: scalar_value_def)
    with lt parts h13 show ?thesis by simp
  qed
  have c1: "second_ok ?x (byte_of (0x80 + c div 64 mod 64))"
    using assms lo hi by (auto simp: second_ok_def is_cont_def unat_byte_of)
  have "c = (c div 64) * 64 + c mod 64" by simp
  also have "\<dots> = ((c div 4096) * 64 + c div 64 mod 64) * 64 + c mod 64"
    using parts by (rule arg_cong [where f = "\<lambda>x. x * 64 + c mod 64"])
  finally have v: "(c div 4096) * 4096 + (c div 64 mod 64) * 64 + c mod 64 = c"
    by (simp add: algebra_simps)
  show ?thesis
    using assms x r c1 v cont_byte [of c] cont_byte [of "c div 64"] by (simp add: utf8_encode_def Let_def)
qed


lemma decode_encode_4:
  assumes "0x10000 \<le> c" "scalar_value c"
  shows "utf8_decode (utf8_encode c @ rest) = c # utf8_decode rest"
proof -
  let ?x = "0xF0 + c div 262144"
  have le: "c \<le> 1114111" using assms(2) by (simp add: scalar_value_def)
  then have "c div 262144 \<le> 4" by simp
  then have x: "unat (byte_of ?x) = ?x" by (intro unat_byte_of) simp
  have r: "0xF0 \<le> ?x" "?x \<le> (0xF4::nat)" using le by simp_all
  have p2: "c div 4096 = c div 262144 * 64 + c div 4096 mod 64"
    using div64_split [of c 4096] by simp
  have p1: "c div 64 = c div 4096 * 64 + c div 64 mod 64"
    using div64_split [of c 64] by simp
  have lo: "16 \<le> c div 4096 mod 64" if "c div 262144 = 0"
  proof -
    have "16 \<le> c div 4096" using assms(1) by (simp add: less_eq_div_iff_mult_less_eq)
    with p2 that show ?thesis by simp
  qed
  have hi: "c div 4096 mod 64 \<le> 15" if "c div 262144 = 4"
  proof -
    have "c div 4096 < 272" using le by (simp add: div_less_iff_less_mult)
    with p2 that show ?thesis by simp
  qed
  have c1: "second_ok ?x (byte_of (0x80 + c div 4096 mod 64))"
    using lo hi r by (auto simp: second_ok_def is_cont_def unat_byte_of)
  have "c = (c div 64) * 64 + c mod 64" by simp
  also have "\<dots> = ((c div 262144 * 64 + c div 4096 mod 64) * 64 + c div 64 mod 64) * 64 + c mod 64"
    using p1 p2 by simp
  finally have v: "c div 262144 * 262144 + c div 4096 mod 64 * 4096 + c div 64 mod 64 * 64 + c mod 64 = c"
    by (simp add: algebra_simps)
  have n3: "\<not> c < 0x10000" using assms(1) by simp
  show ?thesis
    using assms(1) x r c1 v n3 cont_byte [of c] cont_byte [of "c div 64"] cont_byte [of "c div 4096"]
    by (simp add: utf8_encode_def Let_def)
qed

lemma decode_encode_one:
  "scalar_value c \<Longrightarrow> utf8_decode (utf8_encode c @ rest) = c # utf8_decode rest"
  using decode_encode_1 decode_encode_2 decode_encode_3 decode_encode_4
  by (metis linorder_not_le)

lemma utf8_decode_byte_of_ascii:
  "list_all (\<lambda>c. c < 128) s \<Longrightarrow> utf8_decode (map byte_of s) = s"
  by (induction s) (simp_all add: unat_byte_of)

lemma cont_bits_le: "is_cont c \<Longrightarrow> cont_bits c \<le> 63"
  unfolding is_cont_def cont_bits_def by arith

lemma second_ok_cont_bits:
  "second_ok x c \<Longrightarrow> cont_bits c \<le> 63 \<and>
     (x = 0xE0 \<longrightarrow> 32 \<le> cont_bits c) \<and> (x = 0xED \<longrightarrow> cont_bits c \<le> 31) \<and>
     (x = 0xF0 \<longrightarrow> 16 \<le> cont_bits c) \<and> (x = 0xF4 \<longrightarrow> cont_bits c \<le> 15)"
  by (auto simp: second_ok_def is_cont_def cont_bits_def split: if_splits)

lemma scalar_value_2:
  "x \<le> 0xDF \<Longrightarrow> is_cont c \<Longrightarrow> scalar_value ((x - 0xC0) * 64 + cont_bits c)"
proof -
  assume x: "x \<le> 0xDF" and c: "is_cont c"
  have "(x - 0xC0) * 64 \<le> 31 * 64" using x by simp
  with cont_bits_le [OF c] show ?thesis by (simp add: scalar_value_def)
qed

lemma scalar_value_3:
  assumes x: "0xE0 \<le> x" "x \<le> 0xEF" and c1: "second_ok x c1" and c2: "is_cont c2"
  shows "scalar_value ((x - 0xE0) * 4096 + cont_bits c1 * 64 + cont_bits c2)"
proof -
  note b1 = second_ok_cont_bits [OF c1] and b2 = cont_bits_le [OF c2]
  have "cont_bits c1 * 64 + cont_bits c2 \<le> 4095" using b1 b2 by simp
  moreover have "x = 0xED \<Longrightarrow> cont_bits c1 * 64 + cont_bits c2 \<le> 2047" using b1 b2 by simp
  moreover have "x - 0xE0 \<le> 15" using x by simp
  ultimately show ?thesis
    unfolding scalar_value_def by (cases x "0xED::nat" rule: linorder_cases) arith+
qed

lemma scalar_value_4:
  assumes x: "0xF0 \<le> x" "x \<le> 0xF4" and c1: "second_ok x c1" and c2: "is_cont c2" and c3: "is_cont c3"
  shows "scalar_value ((x - 0xF0) * 262144 + cont_bits c1 * 4096 + cont_bits c2 * 64 + cont_bits c3)"
proof -
  note b1 = second_ok_cont_bits [OF c1] and b2 = cont_bits_le [OF c2] and b3 = cont_bits_le [OF c3]
  have low: "cont_bits c2 * 64 + cont_bits c3 \<le> 4095" using b2 b3 by simp
  have "cont_bits c1 * 4096 \<le> 63 * 4096" using b1 by simp
  moreover have "x = 0xF4 \<Longrightarrow> cont_bits c1 * 4096 \<le> 15 * 4096" using b1 by simp
  moreover have "x = 0xF0 \<Longrightarrow> 16 * 4096 \<le> cont_bits c1 * 4096" using b1 by simp
  ultimately show ?thesis
    using x low unfolding scalar_value_def
    by (cases x "0xF0::nat" rule: linorder_cases; cases x "0xF4::nat" rule: linorder_cases) arith+
qed

section \<open>Properties of the decoder\<close>

text \<open>C24: Round trip: the UTF-8 encoding of any string of Unicode scalar values decodes to
  that string; nothing valid is dropped.\<close>

theorem utf8_decode_encode:
  "list_all scalar_value cps \<Longrightarrow> utf8_decode (concat (map utf8_encode cps)) = cps"
  by (induction cps) (simp_all add: decode_encode_one)

theorem utf8_decode_encode_witness:
  "list_all scalar_value [53, 0xE9, 0x20AC, 0x10348] \<and>
   utf8_decode (concat (map utf8_encode [53, 0xE9, 0x20AC, 0x10348])) = [53, 0xE9, 0x20AC, 0x10348]"
proof -
  have h: "list_all scalar_value [53, 0xE9, 0x20AC, 0x10348]" by (simp add: scalar_value_def)
  show ?thesis using h utf8_decode_encode [OF h] by simp
qed

text \<open>ASCII bytes, which is all the device sends, are decoded one character per byte.\<close>

theorem utf8_decode_ascii:
  "list_all (\<lambda>b. unat b < 0x80) bs \<Longrightarrow> utf8_decode bs = map unat bs"
  by (induction bs) simp_all

theorem utf8_decode_ascii_witness:
  "list_all (\<lambda>b. unat b < 0x80) [53, 44, 48, 13, 10 :: byte] \<and>
   utf8_decode [53, 44, 48, 13, 10] = map unat [53, 44, 48, 13, 10 :: byte]"
proof -
  have h: "list_all (\<lambda>b. unat b < 0x80) [53, 44, 48, 13, 10 :: byte]" by simp
  show ?thesis using h utf8_decode_ascii [OF h] by simp
qed

text \<open>C37: Type: every character the decoder produces is a Unicode scalar value (at most
  \<open>0x10FFFF\<close> and not a surrogate), whatever bytes the port delivered.\<close>

theorem utf8_decode_scalar: "list_all scalar_value (utf8_decode bs)"
proof (induction bs rule: utf8_decode.induct)
  case 1
  then show ?case by simp
next
  case (2 b bs)
  then show ?case
    by (auto simp: Let_def scalar_value_def [of "unat b"] scalar_value_2 scalar_value_3 scalar_value_4
          split: list.splits)
qed

end
