(* ===== verification/MainLoop.thy ===== *)
theory MainLoop
  imports Decoder Motion Utf8
begin

text \<open>
  The read loop of \<open>main()\<close> and the module's entry point in
  \<open>src/MouseTracking/python_code.py\<close>: \<open>prevL = prevR = 0\<close> (lines 27 and 28), then
  forever (line 35) read a line of bytes, decode and strip it (line 36), decode the frame
  (lines 37 to 51), move the pointer (53 to 55), handle the buttons (57 to 71). A
  \<open>KeyboardInterrupt\<close> ends the program with the message \<open>Stopped.\<close> and status 0
  (lines 73 to 77); any other exception (the \<open>OverflowError\<close> of the motion dispatch) is
  not caught and ends it with a traceback and status 1.

  The serial port is a list of read events: the bytes one \<open>readline()\<close> returned (a full
  line, a partial line or nothing after the one-second timeout) or the interrupt, taken
  while the loop waits in \<open>readline()\<close>. Opening the port, the two-second sleep and the
  message \<open>Listening...\<close> (lines 30 to 33) have no effect on what the loop computes and
  are not modelled.

  The operating system's pointer (spec section 6, the pointer injection service behind
  pynput) is modelled only as the set of held buttons, \<open>os_apply\<close>: \<open>press\<close> holds a
  button, \<open>release\<close> frees it, \<open>click\<close> and \<open>move\<close> leave it as it is.
\<close>

section \<open>Definitions\<close>

datatype read_event = Read "byte list" | Interrupt

datatype outcome = Running button_state | Stopped | Crashed py_exc

text \<open>Lines 37 to 71 on the decoded line: skip, or move and handle the buttons.\<close>

definition handle_line :: "trigger_policy \<Rightarrow> button_state \<Rightarrow> pystr \<Rightarrow> py_exc + action list \<times> button_state" where
  "handle_line pol st line =
     (case decode_line line of
        Inl _ \<Rightarrow> Inr ([], st)
      | Inr (dx, dy, L, R) \<Rightarrow>
          (case motion dx dy of
             Inl e \<Rightarrow> Inl e
           | Inr ms \<Rightarrow> (let (bs, st') = button_step pol st L R in Inr (ms @ bs, st'))))"

text \<open>Line 36 and the rest of one iteration: \<open>readline().decode(errors="ignore")\<close>.\<close>

definition handle_read :: "trigger_policy \<Rightarrow> button_state \<Rightarrow> byte list \<Rightarrow> py_exc + action list \<times> button_state" where
  "handle_read pol st bs = handle_line pol st (utf8_decode bs)"

fun run_loop :: "trigger_policy \<Rightarrow> button_state \<Rightarrow> read_event list \<Rightarrow> action list \<times> outcome" where
  "run_loop pol st [] = ([], Running st)"
| "run_loop pol st (Interrupt # evs) = ([], Stopped)"
| "run_loop pol st (Read bs # evs) =
     (case handle_read pol st bs of
        Inl e \<Rightarrow> ([], Crashed e)
      | Inr (as, st') \<Rightarrow> (let (as', out) = run_loop pol st' evs in (as @ as', out)))"

definition main_run :: "read_event list \<Rightarrow> action list \<times> outcome" where
  "main_run evs = run_loop (policy_of EDGE_CLICK) init_state evs"

fun exit_status :: "outcome \<Rightarrow> nat option" where
  "exit_status (Running _) = None"
| "exit_status Stopped = Some 0"
| "exit_status (Crashed _) = Some 1"

text \<open>The frames the loop decodes from a sequence of reads, up to an interrupt.\<close>

fun decoded_frames :: "read_event list \<Rightarrow> frame list" where
  "decoded_frames [] = []"
| "decoded_frames (Interrupt # evs) = []"
| "decoded_frames (Read bs # evs) =
     (case decode_line (utf8_decode bs) of Inl _ \<Rightarrow> decoded_frames evs | Inr f \<Rightarrow> f # decoded_frames evs)"

definition frame_levels :: "frame \<Rightarrow> int \<times> int" where
  "frame_levels f = (case f of (dx, dy, L, R) \<Rightarrow> (L, R))"

section \<open>The pointer service and the reachable states\<close>

fun os_apply :: "(button \<Rightarrow> bool) \<Rightarrow> action \<Rightarrow> (button \<Rightarrow> bool)" where
  "os_apply held (Press b) = held(b := True)"
| "os_apply held (Release b) = held(b := False)"
| "os_apply held (Click b) = held"
| "os_apply held (Move x y) = held"

definition os_run :: "(button \<Rightarrow> bool) \<Rightarrow> action list \<Rightarrow> (button \<Rightarrow> bool)" where
  "os_run held as = fold (\<lambda>a h. os_apply h a) as held"

text \<open>The states of the loop together with the buttons the system holds: the start, and
  every read that does not raise.\<close>

inductive reachable :: "trigger_policy \<Rightarrow> button_state \<Rightarrow> (button \<Rightarrow> bool) \<Rightarrow> bool" where
  start: "reachable pol init_state (\<lambda>_. False)"
| step: "reachable pol st held \<Longrightarrow> handle_read pol st bs = Inr (as, st') \<Longrightarrow>
         reachable pol st' (os_run held as)"

section \<open>Lemmas\<close>

lemma motion_Inr_no_buttons: "motion dx dy = Inr ms \<Longrightarrow> actions_of b ms = []"
  by (auto simp: motion_def motion_with_def actions_of_def split: if_splits sum.splits)

lemma motion_Inr_moves: "motion dx dy = Inr ms \<Longrightarrow> os_run held ms = held"
  by (auto simp: motion_def motion_with_def os_run_def split: if_splits sum.splits)

lemma handle_read_cases:
  assumes "handle_read pol st bs = Inr (as, st')"
  shows "(as = [] \<and> st' = st \<and> (\<exists>r. decode_line (utf8_decode bs) = Inl r)) \<or>
         (\<exists>dx dy L R ms. decode_line (utf8_decode bs) = Inr (dx, dy, L, R) \<and> motion dx dy = Inr ms \<and>
            as = ms @ click_handling pol st L R \<and> st' = st\<lparr>prevL := L, prevR := R\<rparr>)"
  using assms
  by (auto simp: handle_read_def handle_line_def button_step_def split: sum.splits prod.splits)

lemma run_loop_Read_Inr:
  "handle_read pol st bs = Inr (as, st') \<Longrightarrow>
   run_loop pol st (Read bs # evs) = (as @ fst (run_loop pol st' evs), snd (run_loop pol st' evs))"
  by (simp add: split_beta)

text \<open>C5: a read whose line does not decode emits no action and leaves the previous levels unchanged.\<close>

theorem handle_read_skip:
  "decode_line (utf8_decode bs) = Inl r \<Longrightarrow> handle_read pol st bs = Inr ([], st)"
  by (simp add: handle_read_def handle_line_def)

lemma run_loop_frames:
  assumes "run_loop pol st evs = (as, out)" and "out \<noteq> Crashed OverflowError"
  shows "actions_of b as = actions_of b (fst (button_run pol st (map frame_levels (decoded_frames evs)))) \<and>
         (\<forall>st'. out = Running st' \<longrightarrow> st' = snd (button_run pol st (map frame_levels (decoded_frames evs))))"
  using assms
proof (induction pol st evs arbitrary: as out rule: run_loop.induct)
  case (1 pol st)
  then show ?case by auto
next
  case (2 pol st evs)
  then show ?case by simp
next
  case (3 pol st bs evs)
  show ?case
  proof (cases "handle_read pol st bs")
    case (Inl e)
    with "3.prems" show ?thesis by (cases e) simp
  next
    case (Inr r)
    obtain as1 st1 where r: "r = (as1, st1)" by fastforce
    obtain as2 out2 where rest: "run_loop pol st1 evs = (as2, out2)" by fastforce
    have h: "handle_read pol st bs = Inr (as1, st1)" using Inr r by simp
    with "3.prems" rest have as: "as = as1 @ as2" and out: "out = out2"
      by (simp_all add: run_loop_Read_Inr)
    have ih: "actions_of b as2 = actions_of b (fst (button_run pol st1 (map frame_levels (decoded_frames evs)))) \<and>
         (\<forall>st'. out2 = Running st' \<longrightarrow> st' = snd (button_run pol st1 (map frame_levels (decoded_frames evs))))"
    proof -
      have "out2 \<noteq> Crashed OverflowError" using "3.prems"(2) out by simp
      from "3.IH" [OF Inr r [symmetric] rest this] show ?thesis .
    qed
    from handle_read_cases [OF h] show ?thesis
    proof
      assume "as1 = [] \<and> st1 = st \<and> (\<exists>r. decode_line (utf8_decode bs) = Inl r)"
      with ih as out show ?thesis by auto
    next
      assume "\<exists>dx dy L R ms. decode_line (utf8_decode bs) = Inr (dx, dy, L, R) \<and> motion dx dy = Inr ms \<and>
            as1 = ms @ click_handling pol st L R \<and> st1 = st\<lparr>prevL := L, prevR := R\<rparr>"
      then obtain dx dy L R ms where d: "decode_line (utf8_decode bs) = Inr (dx, dy, L, R)"
        and m: "motion dx dy = Inr ms" and a1: "as1 = ms @ click_handling pol st L R"
        and s1: "st1 = st\<lparr>prevL := L, prevR := R\<rparr>" by blast
      have fr: "map frame_levels (decoded_frames (Read bs # evs)) = (L, R) # map frame_levels (decoded_frames evs)"
        using d by (simp add: frame_levels_def)
      show ?thesis
        using ih as out a1 s1 fr motion_Inr_no_buttons [OF m]
        by (simp add: button_step_def split_beta actions_of_append)
    qed
  qed
qed


lemma os_run_append: "os_run h (xs @ ys) = os_run (os_run h xs) ys"
  by (simp add: os_run_def)

lemma os_run_click_handling:
  "os_run h (click_handling pol st L R) b =
     (case pol of
        EdgeClick \<Rightarrow> h b
      | PressHold \<Rightarrow> (if level_of b (L, R) \<noteq> prev_of b st then level_of b (L, R) \<noteq> 0 else h b))"
  by (cases pol; cases b)
    (auto simp: click_handling_def edge_click_def press_hold_def os_run_def prev_of_def)

text \<open>C6: in every reachable state, the system holds a button exactly when the policy is PressHold and the button's last decoded level is non-zero; under EdgeClick no button is ever left held.\<close>

theorem reachable_held:
  "reachable pol st held \<Longrightarrow> held b = (pol = PressHold \<and> prev_of b st \<noteq> 0)"
proof (induction rule: reachable.induct)
  case (start pol)
  then show ?case by simp
next
  case (step pol st held bs as st')
  from handle_read_cases [OF step.hyps(2)] show ?case
  proof
    assume "as = [] \<and> st' = st \<and> (\<exists>r. decode_line (utf8_decode bs) = Inl r)"
    with step.IH show ?thesis by (simp add: os_run_def)
  next
    assume "\<exists>dx dy L R ms. decode_line (utf8_decode bs) = Inr (dx, dy, L, R) \<and> motion dx dy = Inr ms \<and>
            as = ms @ click_handling pol st L R \<and> st' = st\<lparr>prevL := L, prevR := R\<rparr>"
    then obtain dx dy L R ms where m: "motion dx dy = Inr ms"
      and a: "as = ms @ click_handling pol st L R" and s: "st' = st\<lparr>prevL := L, prevR := R\<rparr>" by blast
    have "os_run held as b = os_run held (click_handling pol st L R) b"
      using a motion_Inr_moves [OF m] by (simp add: os_run_append)
    with step.IH s show ?thesis
      by (cases pol) (auto simp: os_run_click_handling prev_of_update)
  qed
qed

text \<open>C8: a line that decodes to a frame with a delta of magnitude \<open>2 ^ 1024\<close> or more ends the program with an uncaught OverflowError (exit status 1) before any pointer call.\<close>

theorem run_loop_overflow_crash:
  assumes "decode_line (utf8_decode bs) = Inr (dx, dy, L, R)"
    and "2 ^ DBL_MAX_EXP \<le> \<bar>dx\<bar> \<or> 2 ^ DBL_MAX_EXP \<le> \<bar>dy\<bar>"
  shows "run_loop pol st (Read bs # evs) = ([], Crashed OverflowError) \<and>
         exit_status (snd (run_loop pol st (Read bs # evs))) = Some 1"
proof -
  have "motion dx dy = Inl OverflowError"
    using assms(2) by (rule motion_overflow_error)
  with assms(1) show ?thesis by (simp add: handle_read_def handle_line_def)
qed

text \<open>C27: one read emits at most three pointer actions, of which at most one is a move.\<close>

theorem handle_read_bound:
  assumes "handle_read pol st bs = Inr (as, st')"
  shows "length as \<le> 3 \<and> length (filter (\<lambda>a. action_button a = None) as) \<le> 1"
proof -
  have ch: "length (click_handling pol st L R) \<le> 2" "filter (\<lambda>a. action_button a = None) (click_handling pol st L R) = []" for L R
    by (cases pol; simp add: click_handling_def edge_click_def press_hold_def)+
  have m: "length ms \<le> 1 \<and> length (filter (\<lambda>a. action_button a = None) ms) \<le> 1" if "motion dx dy = Inr ms" for dx dy ms
    using that by (auto simp: motion_def motion_with_def split: if_splits sum.splits)
  from handle_read_cases [OF assms] show ?thesis
  proof
    assume "as = [] \<and> st' = st \<and> (\<exists>r. decode_line (utf8_decode bs) = Inl r)"
    then show ?thesis by simp
  next
    assume "\<exists>dx dy L R ms. decode_line (utf8_decode bs) = Inr (dx, dy, L, R) \<and> motion dx dy = Inr ms \<and>
            as = ms @ click_handling pol st L R \<and> st' = st\<lparr>prevL := L, prevR := R\<rparr>"
    then obtain dx dy L R ms where "motion dx dy = Inr ms" and "as = ms @ click_handling pol st L R" by blast
    with ch [of L R] m show ?thesis by fastforce
  qed
qed


section \<open>Properties of the loop\<close>

lemmas loop_eval = main_run_def handle_read_def handle_line_def button_step_def click_handling_def
  edge_click_def press_hold_def policy_of_def EDGE_CLICK_def init_state_def motion_def motion_with_def
  scaled_delta_def py_float_of_int_def round_to_double_def SCALE_def DBL_MANT_DIG_def
  round_dyadic_def dyadic_overflows_def trunc_dyadic_def DBL_SUBNORMAL_EXP_def
  DBL_MAX_EXP_def is_cont_def second_ok_def cont_bits_def decode_eval_simps bit_length.simps

text \<open>The scenario of the spec (section 8, item 7): under EdgeClick with \<open>SCALE = 1.0\<close>,
  the lines \<open>5,0,0,0\<close>, \<open>bad,line\<close>, \<open>0,0,1,0\<close> twice and \<open>0,0,0,0\<close> move the pointer
  by \<open>(5, 0)\<close>, skip the second line, click the left button once and do nothing else.\<close>

theorem main_run_spec_scenario:
  "main_run [Read (pyb ''5,0,0,0\<newline>''), Read (pyb ''bad,line\<newline>''), Read (pyb ''0,0,1,0\<newline>''),
             Read (pyb ''0,0,1,0\<newline>''), Read (pyb ''0,0,0,0\<newline>'')] =
     ([Move 5 0, Click Left], Running \<lparr>prevL = 0, prevR = 0\<rparr>)"
  by (simp add: loop_eval)

text \<open>C1: The whole program refines the spec's button machine: for each button, the actions
  of a run that has not crashed are a run of the EdgeClick machine over the levels of the
  frames decoded so far, when these levels are 0 or 1.\<close>

theorem main_run_refines:
  assumes "main_run evs = (as, out)" and "out \<noteq> Crashed OverflowError"
    and "list_all (\<lambda>f. level01 (level_of b (frame_levels f))) (decoded_frames evs)"
  shows "fsm_run EdgeClick b False (map (\<lambda>f. level_of b (frame_levels f) \<noteq> 0) (decoded_frames evs))
           (actions_of b as)"
proof -
  have run: "run_loop EdgeClick init_state evs = (as, out)"
    using assms(1) by (simp add: main_run_def policy_of_def EDGE_CLICK_def)
  have "actions_of b as = actions_of b (fst (button_run EdgeClick init_state (map frame_levels (decoded_frames evs))))"
    using run_loop_frames [OF run assms(2)] by blast
  moreover have "fsm_run EdgeClick b (prev_of b init_state \<noteq> 0)
      (map (\<lambda>f. level_of b f \<noteq> 0) (map frame_levels (decoded_frames evs)))
      (actions_of b (fst (button_run EdgeClick init_state (map frame_levels (decoded_frames evs)))))"
    using assms(3) by (intro button_run_fsm) (simp_all add: level01_def list_all_iff)
  ultimately show ?thesis by (simp add: comp_def)
qed

theorem main_run_refines_witness:
  "main_run [Read (pyb ''5,0,0,0\<newline>''), Read (pyb ''bad,line\<newline>''), Read (pyb ''0,0,1,0\<newline>''),
             Read (pyb ''0,0,1,0\<newline>''), Read (pyb ''0,0,0,0\<newline>'')] =
     ([Move 5 0, Click Left], Running \<lparr>prevL = 0, prevR = 0\<rparr>) \<and>
   Running \<lparr>prevL = 0, prevR = 0\<rparr> \<noteq> Crashed OverflowError \<and>
   list_all (\<lambda>f. level01 (level_of Left (frame_levels f)))
     (decoded_frames [Read (pyb ''5,0,0,0\<newline>''), Read (pyb ''bad,line\<newline>''), Read (pyb ''0,0,1,0\<newline>''),
             Read (pyb ''0,0,1,0\<newline>''), Read (pyb ''0,0,0,0\<newline>'')]) \<and>
   fsm_run EdgeClick Left False [False, True, True, False] (actions_of Left [Move 5 0, Click Left])"
proof -
  let ?evs = "[Read (pyb ''5,0,0,0\<newline>''), Read (pyb ''bad,line\<newline>''), Read (pyb ''0,0,1,0\<newline>''),
             Read (pyb ''0,0,1,0\<newline>''), Read (pyb ''0,0,0,0\<newline>'')]"
  have h1: "main_run ?evs = ([Move 5 0, Click Left], Running \<lparr>prevL = 0, prevR = 0\<rparr>)"
    by (simp add: loop_eval)
  have h2: "Running \<lparr>prevL = 0, prevR = 0\<rparr> \<noteq> Crashed OverflowError" by simp
  have fr: "decoded_frames ?evs = [(5, 0, 0, 0), (0, 0, 1, 0), (0, 0, 1, 0), (0, 0, 0, 0)]"
    by (simp add: loop_eval)
  have h3: "list_all (\<lambda>f. level01 (level_of Left (frame_levels f))) (decoded_frames ?evs)"
    unfolding fr by (simp add: level01_def frame_levels_def)
  have "fsm_run EdgeClick Left False
      (map (\<lambda>f. level_of Left (frame_levels f) \<noteq> 0) (decoded_frames ?evs)) (actions_of Left [Move 5 0, Click Left])"
    by (rule main_run_refines [OF h1 h2 h3])
  then have "fsm_run EdgeClick Left False [False, True, True, False] (actions_of Left [Move 5 0, Click Left])"
    unfolding fr by (simp add: frame_levels_def)
  with h1 h2 h3 show ?thesis by blast
qed

text \<open>C4: The loop is the click handling run over the frames it decodes: the actions of every
  button and, while the loop runs, its state are those of \<open>button_run\<close> on the levels of
  the decoded frames; skipped lines contribute nothing (the invariant of spec section 3).\<close>

theorem run_loop_button_run:
  "run_loop pol st evs = (as, out) \<Longrightarrow> out \<noteq> Crashed OverflowError \<Longrightarrow>
   actions_of b as = actions_of b (fst (button_run pol st (map frame_levels (decoded_frames evs)))) \<and>
   (\<forall>st'. out = Running st' \<longrightarrow> st' = snd (button_run pol st (map frame_levels (decoded_frames evs))))"
  by (rule run_loop_frames)

theorem run_loop_button_run_witness:
  "run_loop PressHold init_state [Read (pyb ''0,0,1,0''), Read (pyb ''x''), Read (pyb ''0,0,0,1'')] =
     ([Press Left, Release Left, Press Right], Running \<lparr>prevL = 0, prevR = 1\<rparr>) \<and>
   Running \<lparr>prevL = 0, prevR = 1\<rparr> \<noteq> Crashed OverflowError \<and>
   \<lparr>prevL = 0, prevR = 1\<rparr> = snd (button_run PressHold init_state (map frame_levels
     (decoded_frames [Read (pyb ''0,0,1,0''), Read (pyb ''x''), Read (pyb ''0,0,0,1'')])))"
proof -
  let ?evs = "[Read (pyb ''0,0,1,0''), Read (pyb ''x''), Read (pyb ''0,0,0,1'')]"
  have h1: "run_loop PressHold init_state ?evs =
      ([Press Left, Release Left, Press Right], Running \<lparr>prevL = 0, prevR = 1\<rparr>)"
    by (simp add: loop_eval)
  have h2: "Running \<lparr>prevL = 0, prevR = 1\<rparr> \<noteq> Crashed OverflowError" by simp
  from run_loop_button_run [OF h1 h2, of Left] h1 h2 show ?thesis by simp
qed

theorem handle_read_skip_witness:
  "decode_line (utf8_decode (pyb ''bad,line'')) = Inl (FieldCount 2) \<and>
   handle_read PressHold \<lparr>prevL = 1, prevR = 0\<rparr> (pyb ''bad,line'') = Inr ([], \<lparr>prevL = 1, prevR = 0\<rparr>)"
proof -
  have h: "decode_line (utf8_decode (pyb ''bad,line'')) = Inl (FieldCount 2)"
    by (simp add: loop_eval)
  show ?thesis using h handle_read_skip [OF h] by simp
qed

theorem reachable_held_witness:
  "reachable PressHold \<lparr>prevL = 1, prevR = 0\<rparr> ((\<lambda>_. False)(Left := True)) \<and>
   ((\<lambda>_. False)(Left := True)) Left = (PressHold = PressHold \<and> prev_of Left \<lparr>prevL = 1, prevR = 0\<rparr> \<noteq> 0)"
proof -
  have hr: "handle_read PressHold init_state (pyb ''0,0,1,0'') = Inr ([Press Left], \<lparr>prevL = 1, prevR = 0\<rparr>)"
    by (simp add: loop_eval)
  have "reachable PressHold \<lparr>prevL = 1, prevR = 0\<rparr> (os_run (\<lambda>_. False) [Press Left])"
    by (rule reachable.step [OF reachable.start hr])
  then have r: "reachable PressHold \<lparr>prevL = 1, prevR = 0\<rparr> ((\<lambda>_. False)(Left := True))"
    by (simp add: os_run_def)
  show ?thesis using r reachable_held [OF r, of Left] by simp
qed

theorem run_loop_overflow_crash_witness:
  "decode_line (utf8_decode (map byte_of (format_frame (2 ^ 1024, 0, 0, 0)))) = Inr (2 ^ 1024, 0, 0, 0) \<and>
   (2 ^ DBL_MAX_EXP \<le> \<bar>2 ^ 1024 :: int\<bar> \<or> 2 ^ DBL_MAX_EXP \<le> \<bar>0 :: int\<bar>) \<and>
   run_loop EdgeClick init_state [Read (map byte_of (format_frame (2 ^ 1024, 0, 0, 0)))] =
     ([], Crashed OverflowError)"
proof -
  have big: "(2::int) ^ 1024 < 10 ^ INT_MAX_STR_DIGITS"
  proof -
    have "(2::int) ^ 1024 < 10 ^ 1024" by (rule power_strict_mono) simp_all
    also have "(10::int) ^ 1024 \<le> 10 ^ INT_MAX_STR_DIGITS"
      by (rule power_increasing) (simp_all add: INT_MAX_STR_DIGITS_def)
    finally show ?thesis .
  qed
  have fits: "frame_fits (2 ^ 1024, 0, 0, 0)"
    using big ten_le_pow_max_digits by simp
  have u: "utf8_decode (map byte_of (format_frame (2 ^ 1024, 0, 0, 0))) = format_frame (2 ^ 1024, 0, 0, 0)"
    by (rule utf8_decode_byte_of_ascii [OF format_frame_ascii])
  have d: "decode_line (utf8_decode (map byte_of (format_frame (2 ^ 1024, 0, 0, 0)))) = Inr (2 ^ 1024, 0, 0, 0)"
    using u decode_line_format_frame [OF fits, of "[]" "[]"] by simp
  have o: "2 ^ DBL_MAX_EXP \<le> \<bar>2 ^ 1024 :: int\<bar> \<or> 2 ^ DBL_MAX_EXP \<le> \<bar>0 :: int\<bar>"
    by (simp add: DBL_MAX_EXP_def)
  show ?thesis using d o run_loop_overflow_crash [OF d o, of EdgeClick init_state "[]"] by simp
qed

theorem handle_read_bound_witness:
  "handle_read EdgeClick init_state (pyb ''5,0,1,1'') = Inr ([Move 5 0, Click Left, Click Right], \<lparr>prevL = 1, prevR = 1\<rparr>) \<and>
   length [Move 5 0, Click Left, Click Right] \<le> 3 \<and>
   length (filter (\<lambda>a. action_button a = None) [Move 5 0, Click Left, Click Right]) \<le> 1"
proof -
  have h: "handle_read EdgeClick init_state (pyb ''5,0,1,1'') = Inr ([Move 5 0, Click Left, Click Right], \<lparr>prevL = 1, prevR = 1\<rparr>)"
    by (simp add: loop_eval)
  show ?thesis using h handle_read_bound [OF h] by simp
qed

lemma handle_read_Inl_skip:
  "decode_line (utf8_decode bs) = Inl r \<Longrightarrow> handle_read pol st bs = Inr ([], st)"
  by (simp add: handle_read_def handle_line_def)

text \<open>C7: A read whose line does not decode may be inserted anywhere in the port's reads
  without changing anything: the loop makes the same pointer calls and ends in the same
  state or by the same exception (spec section 3: a malformed line is skipped and the state
  is left as it was).\<close>

theorem run_loop_skip_read:
  assumes "decode_line (utf8_decode bs) = Inl r"
  shows "run_loop pol st (xs @ Read bs # ys) = run_loop pol st (xs @ ys)"
proof (induction xs arbitrary: st)
  case Nil
  show ?case using handle_read_Inl_skip [OF assms] by simp
next
  case (Cons x xs)
  show ?case
  proof (cases x)
    case (Read b)
    then show ?thesis using Cons.IH by (simp split: sum.split)
  qed simp
qed

theorem run_loop_skip_read_witness:
  "decode_line (utf8_decode (pyb ''bad,line'')) = Inl (FieldCount 2) \<and>
   run_loop EdgeClick init_state ([Read (pyb ''0,0,1,0'')] @ Read (pyb ''bad,line'') # [Read (pyb ''0,0,1,0'')]) =
     ([Click Left], Running \<lparr>prevL = 1, prevR = 0\<rparr>)"
proof -
  have h: "decode_line (utf8_decode (pyb ''bad,line'')) = Inl (FieldCount 2)" by (simp add: loop_eval)
  have "run_loop EdgeClick init_state [Read (pyb ''0,0,1,0''), Read (pyb ''0,0,1,0'')] =
          ([Click Left], Running \<lparr>prevL = 1, prevR = 0\<rparr>)" by (simp add: loop_eval)
  then show ?thesis using h run_loop_skip_read [OF h, of EdgeClick init_state "[Read (pyb ''0,0,1,0'')]"] by simp
qed

lemma motion_Inr_moves_only: "motion dx dy = Inr ms \<Longrightarrow> list_all (\<lambda>a. action_button a = None) ms"
  by (auto simp: motion_def motion_with_def split: if_splits sum.splits)

lemma click_handling_no_moves: "list_all (\<lambda>a. action_button a \<noteq> None) (click_handling pol st L R)"
  by (cases pol) (auto simp: click_handling_def edge_click_def press_hold_def)

text \<open>C28: Within one read the motion call comes first (lines 53 to 55), then the button
  calls (lines 57 to 69): the actions of a read are its moves followed by its button
  actions, in that order.\<close>

theorem handle_read_moves_first:
  assumes "handle_read pol st bs = Inr (as, st')"
  shows "as = filter (\<lambda>a. action_button a = None) as @ filter (\<lambda>a. action_button a \<noteq> None) as"
  using handle_read_cases [OF assms]
proof
  assume "as = [] \<and> st' = st \<and> (\<exists>r. decode_line (utf8_decode bs) = Inl r)"
  then show ?thesis by simp
next
  assume "\<exists>dx dy L R ms. decode_line (utf8_decode bs) = Inr (dx, dy, L, R) \<and> motion dx dy = Inr ms \<and>
            as = ms @ click_handling pol st L R \<and> st' = st\<lparr>prevL := L, prevR := R\<rparr>"
  then obtain dx dy L R ms where m: "motion dx dy = Inr ms" and a: "as = ms @ click_handling pol st L R" by blast
  have "filter (\<lambda>a. action_button a = None) ms = ms" "filter (\<lambda>a. action_button a \<noteq> None) ms = []"
    using motion_Inr_moves_only [OF m] by (simp_all add: list_all_iff)
  moreover have "filter (\<lambda>a. action_button a = None) (click_handling pol st L R) = []"
    "filter (\<lambda>a. action_button a \<noteq> None) (click_handling pol st L R) = click_handling pol st L R"
    using click_handling_no_moves [of pol st L R] by (simp_all add: list_all_iff filter_id_conv filter_empty_conv)
  ultimately show ?thesis using a by simp
qed

theorem handle_read_moves_first_witness:
  "handle_read EdgeClick init_state (pyb ''5,0,1,1'') = Inr ([Move 5 0, Click Left, Click Right], \<lparr>prevL = 1, prevR = 1\<rparr>) \<and>
   [Move 5 0, Click Left, Click Right] =
     filter (\<lambda>a. action_button a = None) [Move 5 0, Click Left, Click Right] @
     filter (\<lambda>a. action_button a \<noteq> None) [Move 5 0, Click Left, Click Right]"
proof -
  have h: "handle_read EdgeClick init_state (pyb ''5,0,1,1'') = Inr ([Move 5 0, Click Left, Click Right], \<lparr>prevL = 1, prevR = 1\<rparr>)"
    by (simp add: loop_eval)
  show ?thesis using h handle_read_moves_first [OF h] by simp
qed

end
