(* ===== verification/Serve.thy ===== *)
theory Serve
  imports MainLoop "HOL-Library.Stream"
begin

text \<open>
  The \<open>while True\<close> loop of \<open>main()\<close> in \<open>src/MouseTracking/python_code.py\<close>
  (lines 35 to 71) over the whole life of the port: an infinite stream of read events.
  The loop never leaves by itself; it ends only by an exception: a
  \<open>KeyboardInterrupt\<close> while it waits in \<open>readline()\<close>, or the \<open>OverflowError\<close> of the
  motion dispatch. \<open>serve\<close> is defined with \<open>partial_function (option)\<close>: \<open>None\<close> is a
  loop that never ends, \<open>Some (as, e)\<close> the pointer actions it made and the exception that
  ended it. \<open>serve\<close> agrees with the finite model \<open>run_loop\<close> of \<open>MainLoop\<close> on every
  prefix of the stream, and it returns exactly when some prefix of the reads ends the loop.
\<close>

section \<open>Definitions\<close>

text \<open>The exceptions that leave \<open>main()\<close>: the interrupt, the failure to open the port
  (\<open>serial.SerialException\<close>, line 30) and an exception of the loop body.\<close>

datatype exc = KeyboardInterrupt | SerialException | Raised py_exc

text \<open>The exception that ended a finite run of the loop, if it has ended.\<close>

fun raised :: "outcome \<Rightarrow> exc option" where
  "raised (Running _) = None"
| "raised Stopped = Some KeyboardInterrupt"
| "raised (Crashed e) = Some (Raised e)"

partial_function (option) serve ::
  "trigger_policy \<Rightarrow> button_state \<Rightarrow> read_event stream \<Rightarrow> (action list \<times> exc) option" where
  "serve pol st evs =
     (case shd evs of
        Interrupt \<Rightarrow> Some ([], KeyboardInterrupt)
      | Read bs \<Rightarrow>
          (case handle_read pol st bs of
             Inl e \<Rightarrow> Some ([], Raised e)
           | Inr (as, st') \<Rightarrow> Option.bind (serve pol st' (stl evs)) (\<lambda>(as', x). Some (as @ as', x))))"

text \<open>A read that decodes to a frame whose motion the float conversion cannot represent.\<close>

definition overflowing_read :: "read_event \<Rightarrow> bool" where
  "overflowing_read ev =
     (case ev of
        Interrupt \<Rightarrow> False
      | Read bs \<Rightarrow>
          (case decode_line (utf8_decode bs) of
             Inl _ \<Rightarrow> False
           | Inr (dx, dy, L, R) \<Rightarrow> 2 ^ 1024 - 2 ^ 970 \<le> \<bar>dx\<bar> \<or> 2 ^ 1024 - 2 ^ 970 \<le> \<bar>dy\<bar>))"

section \<open>The loop over a stream and its finite prefixes\<close>

lemma serve_prefix_raised:
  "raised (snd (run_loop pol st (stake n evs))) = Some x \<Longrightarrow>
   serve pol st evs = Some (fst (run_loop pol st (stake n evs)), x)"
proof (induction n arbitrary: st evs)
  case 0
  then show ?case by simp
next
  case (Suc n)
  show ?case
  proof (cases "shd evs")
    case Interrupt
    with Suc.prems show ?thesis by (simp add: serve.simps)
  next
    case (Read bs)
    show ?thesis
    proof (cases "handle_read pol st bs")
      case (Inl e)
      with Read Suc.prems show ?thesis by (simp add: serve.simps)
    next
      case (Inr r)
      obtain as st' where r: "r = (as, st')" by fastforce
      from Suc.prems Inr r Read have "raised (snd (run_loop pol st' (stake n (stl evs)))) = Some x"
        by (simp add: split_beta)
      from Suc.IH [OF this] Inr r Read show ?thesis
        by (simp add: serve.simps split_beta)
    qed
  qed
qed

lemma serve_Some_prefix:
  assumes ret: "serve pol st evs = Some (as, x)"
  shows "\<exists>n. fst (run_loop pol st (stake n evs)) = as \<and> raised (snd (run_loop pol st (stake n evs))) = Some x"
proof (rule serve.raw_induct [where P = "\<lambda>pol st evs r. \<exists>n. fst (run_loop pol st (stake n evs)) = fst r \<and>
         raised (snd (run_loop pol st (stake n evs))) = Some (snd r)", OF _ ret, simplified])
  fix f pol st evs r
  assume IH: "\<And>pol st evs r. f pol st evs = Some r \<Longrightarrow> \<exists>n. fst (run_loop pol st (stake n evs)) = fst r \<and>
         raised (snd (run_loop pol st (stake n evs))) = Some (snd r)"
    and eq: "(case shd evs of
        Interrupt \<Rightarrow> Some ([], KeyboardInterrupt)
      | Read bs \<Rightarrow>
          (case handle_read pol st bs of
             Inl e \<Rightarrow> Some ([], Raised e)
           | Inr (as, st') \<Rightarrow> Option.bind (f pol st' (stl evs)) (\<lambda>(as', x). Some (as @ as', x)))) = Some r"
  show "\<exists>n. fst (run_loop pol st (stake n evs)) = fst r \<and> raised (snd (run_loop pol st (stake n evs))) = Some (snd r)"
  proof (cases "shd evs")
    case Interrupt
    with eq have "fst (run_loop pol st (stake 1 evs)) = fst r \<and>
        raised (snd (run_loop pol st (stake 1 evs))) = Some (snd r)" by auto
    then show ?thesis by blast
  next
    case (Read bs)
    show ?thesis
    proof (cases "handle_read pol st bs")
      case (Inl e)
      with eq Read have "fst (run_loop pol st (stake 1 evs)) = fst r \<and>
          raised (snd (run_loop pol st (stake 1 evs))) = Some (snd r)" by auto
      then show ?thesis by blast
    next
      case (Inr p)
      obtain as st' where p: "p = (as, st')" by fastforce
      from eq Read Inr p obtain r' where r': "f pol st' (stl evs) = Some r'" and r: "r = (as @ fst r', snd r')"
        by (auto split: Option.bind_splits simp: split_beta)
      from IH [OF r'] obtain n where n: "fst (run_loop pol st' (stake n (stl evs))) = fst r'"
        "raised (snd (run_loop pol st' (stake n (stl evs)))) = Some (snd r')" by blast
      have "fst (run_loop pol st (stake (Suc n) evs)) = fst r \<and>
          raised (snd (run_loop pol st (stake (Suc n) evs))) = Some (snd r)"
        using r n Inr p Read by (simp add: split_beta)
      then show ?thesis by blast
    qed
  qed
qed

lemma serve_None_iff:
  "serve pol st evs = None \<longleftrightarrow> (\<forall>n. raised (snd (run_loop pol st (stake n evs))) = None)"
proof
  assume N: "serve pol st evs = None"
  show "\<forall>n. raised (snd (run_loop pol st (stake n evs))) = None"
  proof
    fix n
    show "raised (snd (run_loop pol st (stake n evs))) = None"
      using serve_prefix_raised [of pol st n evs] N by (cases "raised (snd (run_loop pol st (stake n evs)))") auto
  qed
next
  assume R: "\<forall>n. raised (snd (run_loop pol st (stake n evs))) = None"
  show "serve pol st evs = None"
  proof (rule ccontr)
    assume "serve pol st evs \<noteq> None"
    then obtain as x where "serve pol st evs = Some (as, x)" by fastforce
    from serve_Some_prefix [OF this] R show False by auto
  qed
qed

lemma run_loop_Interrupt_ends:
  "Interrupt \<in> set evs \<Longrightarrow> raised (snd (run_loop pol st evs)) \<noteq> None"
  by (induction pol st evs rule: run_loop.induct) (auto simp: split_beta split: sum.splits)

lemma run_loop_timeouts:
  "run_loop pol st (replicate k (Read [])) = ([], Running st)"
proof (induction k)
  case 0
  then show ?case by simp
next
  case (Suc k)
  have "handle_read pol st [] = Inr ([], st)"
    by (simp add: handle_read_def handle_line_def decode_line_def py_strip_def)
  with Suc show ?case by simp
qed

lemma run_loop_append:
  "run_loop pol st xs = (as, Running st') \<Longrightarrow>
   run_loop pol st (xs @ ys) = (as @ fst (run_loop pol st' ys), snd (run_loop pol st' ys))"
proof (induction xs arbitrary: st as)
  case Nil
  then show ?case by simp
next
  case (Cons x xs)
  show ?case
  proof (cases x)
    case Interrupt
    with Cons.prems show ?thesis by simp
  next
    case (Read bs)
    show ?thesis
    proof (cases "handle_read pol st bs")
      case (Inl e)
      with Cons.prems Read show ?thesis by simp
    next
      case (Inr p)
      obtain a s1 where p: "p = (a, s1)" by fastforce
      with Cons.prems Read Inr have r1: "run_loop pol s1 xs = (fst (run_loop pol s1 xs), Running st')"
        and as: "as = a @ fst (run_loop pol s1 xs)"
        by (simp_all add: split_beta prod_eq_iff)
      from Cons.IH [OF r1] Read Inr p as show ?thesis by (simp add: split_beta)
    qed
  qed
qed

lemma stake_sconst_replicate: "stake n (sconst x) = replicate n x"
  by (induction n) (simp_all del: stake_siterate)

lemma stake_timeouts:
  "stake n (replicate k x @- sconst y) = replicate (min n k) x @ replicate (n - k) y"
proof (induction k arbitrary: n)
  case 0
  then show ?case using stake_sconst_replicate [of n y] by (simp add: id_def del: stake_siterate)
next
  case (Suc k)
  then show ?case by (cases n) simp_all
qed

lemma serve_Interrupt_ends:
  "snth evs n = Interrupt \<Longrightarrow> \<exists>as x. serve pol st evs = Some (as, x) \<and> x \<noteq> SerialException"
proof -
  assume n: "snth evs n = Interrupt"
  have "Interrupt \<in> set (stake (Suc n) evs)"
    using n by (metis lessI nth_mem length_stake stake_nth)
  then obtain x where x: "raised (snd (run_loop pol st (stake (Suc n) evs))) = Some x"
    using run_loop_Interrupt_ends by blast
  have "x \<noteq> SerialException"
    using x by (cases "snd (run_loop pol st (stake (Suc n) evs))") auto
  with serve_prefix_raised [OF x] show ?thesis by blast
qed

section \<open>Properties of the loop\<close>

lemma handle_read_Inl_iff: "(\<exists>e. handle_read pol st bs = Inl e) \<longleftrightarrow> overflowing_read (Read bs)"
proof (cases "decode_line (utf8_decode bs)")
  case (Inl r)
  then show ?thesis by (simp add: handle_read_def handle_line_def overflowing_read_def)
next
  case (Inr f)
  obtain dx dy L R where f: "f = (dx, dy, L, R)" by (cases f) auto
  have "(\<exists>e. motion dx dy = Inl e) \<longleftrightarrow> motion dx dy = Inl OverflowError"
    by (metis py_exc.exhaust)
  also have "\<dots> \<longleftrightarrow> 2 ^ 1024 - 2 ^ 970 \<le> \<bar>dx\<bar> \<or> 2 ^ 1024 - 2 ^ 970 \<le> \<bar>dy\<bar>"
    by (rule motion_Inl_iff)
  finally have m: "(\<exists>e. motion dx dy = Inl e) \<longleftrightarrow> 2 ^ 1024 - 2 ^ 970 \<le> \<bar>dx\<bar> \<or> 2 ^ 1024 - 2 ^ 970 \<le> \<bar>dy\<bar>" .
  have "(\<exists>e. handle_read pol st bs = Inl e) \<longleftrightarrow> (\<exists>e. motion dx dy = Inl e)"
    using Inr f by (auto simp: handle_read_def handle_line_def split: sum.splits prod.splits)
  with m Inr f show ?thesis by (simp only: overflowing_read_def read_event.case sum.case prod.case)
qed

lemma run_loop_raised_None:
  "raised (snd (run_loop pol st evs)) = None \<longleftrightarrow> (\<forall>ev \<in> set evs. ev \<noteq> Interrupt \<and> \<not> overflowing_read ev)"
proof (induction evs arbitrary: st)
  case Nil
  then show ?case by simp
next
  case (Cons ev evs)
  show ?case
  proof (cases ev)
    case Interrupt
    then show ?thesis by simp
  next
    case (Read bs)
    show ?thesis
    proof (cases "handle_read pol st bs")
      case (Inl e)
      then have "overflowing_read (Read bs)" using handle_read_Inl_iff [of pol st bs] by auto
      with Inl Read show ?thesis by simp
    next
      case (Inr r)
      then have "\<not> overflowing_read (Read bs)" using handle_read_Inl_iff [of pol st bs] by auto
      with Inr Read Cons.IH show ?thesis by (cases r) (simp add: split_beta)
    qed
  qed
qed

lemma all_stake_snth: "(\<forall>n. \<forall>x \<in> set (stake n s). P x) \<longleftrightarrow> (\<forall>n. P (s !! n))"
proof
  assume "\<forall>n. \<forall>x \<in> set (stake n s). P x"
  then show "\<forall>n. P (s !! n)"
    by (metis in_set_conv_nth lessI length_stake stake_nth)
next
  assume "\<forall>n. P (s !! n)"
  then show "\<forall>n. \<forall>x \<in> set (stake n s). P x"
    by (auto simp: in_set_conv_nth)
qed

text \<open>C29: The loop never ends by itself, and only two things end it: it runs forever
  exactly when the port never reports an interrupt and no read decodes to a frame with a
  delta of magnitude \<open>2 ^ 1024 - 2 ^ 970\<close> or more (the only exception of the loop body);
  skipped lines, timeouts and every other frame keep it running.\<close>

theorem serve_forever_iff:
  "serve pol st evs = None \<longleftrightarrow> (\<forall>n. evs !! n \<noteq> Interrupt \<and> \<not> overflowing_read (evs !! n))"
  using serve_None_iff [of pol st evs] run_loop_raised_None [of pol st]
    all_stake_snth [of _ "\<lambda>ev. ev \<noteq> Interrupt \<and> \<not> overflowing_read ev"]
  by simp

text \<open>C30: A read that times out (the empty line) is not an error: any number of timeouts
  followed by an interrupt makes no pointer action and ends by the interrupt, and a port that
  only times out keeps the loop running forever.\<close>

theorem serve_timeouts:
  "serve pol st (replicate k (Read []) @- sconst Interrupt) = Some ([], KeyboardInterrupt) \<and>
   serve pol st (sconst (Read [])) = None"
proof
  have "stake (Suc k) (replicate k (Read []) @- sconst Interrupt) = replicate k (Read []) @ [Interrupt]"
    by (simp add: stake_timeouts)
  then have "run_loop pol st (stake (Suc k) (replicate k (Read []) @- sconst Interrupt)) = ([], Stopped)"
    by (simp add: run_loop_append [OF run_loop_timeouts])
  from serve_prefix_raised [of pol st "Suc k", OF _] this
  show "serve pol st (replicate k (Read []) @- sconst Interrupt) = Some ([], KeyboardInterrupt)" by simp
next
  show "serve pol st (sconst (Read [])) = None"
    using stake_sconst_replicate [of _ "Read []"] by (simp add: serve_None_iff run_loop_timeouts del: stake_siterate)
qed

end
