(* ===== verification/Program.thy ===== *)
theory Program
  imports Serve
begin

text \<open>
  The whole program \<open>src/MouseTracking/python_code.py\<close> as the sequence of its observable
  effects: the settings (lines 6, 9, 18, 21), the pointer controller created at import
  (line 24), \<open>main()\<close> (lines 26 to 71: open the port with a one-second read timeout, wait
  two seconds for the device to reset, print the banner, serve the port until an exception,
  and close the port on the way out of the \<open>with\<close> block), and the entry point
  (lines 73 to 77: \<open>KeyboardInterrupt\<close> prints \<open>Stopped.\<close> and exits with status 0; any other
  exception is printed as a traceback and exits with status 1).

  The environment says whether \<open>serial.Serial\<close> opens the port (it raises
  \<open>SerialException\<close> when the device is missing or busy), whether the interrupt arrives
  during the two-second settle delay, and what the reads of the port are.
\<close>

section \<open>Definitions\<close>

definition PORT :: string where
  "PORT = ''/dev/cu.usbmodem14101''"

definition BAUD :: nat where
  "BAUD = 9600"

text \<open>The \<open>timeout=1\<close> of \<open>serial.Serial\<close> (seconds) and \<open>time.sleep(2.0)\<close> (milliseconds).\<close>

definition READ_TIMEOUT :: nat where
  "READ_TIMEOUT = 1"

definition SETTLE_DELAY_MS :: nat where
  "SETTLE_DELAY_MS = 2000"

definition LISTENING_MSG :: string where
  "LISTENING_MSG = ''Listening... (Ctrl+C to quit)''"

definition STOPPED_MSG :: string where
  "STOPPED_MSG = ''\<newline>Stopped.''"

datatype effect =
    CreateController
  | OpenPort string nat nat
  | Sleep nat
  | Print string
  | Pointer action
  | ClosePort
  | Traceback string

record port_env =
  port_opens :: bool
  settle_interrupted :: bool
  port_reads :: "read_event stream"

fun exc_name :: "exc \<Rightarrow> string" where
  "exc_name KeyboardInterrupt = ''KeyboardInterrupt''"
| "exc_name SerialException = ''SerialException''"
| "exc_name (Raised OverflowError) = ''OverflowError''"

text \<open>\<open>main()\<close>: the effects it makes and the exception it ends by; \<open>None\<close> when it runs
  forever. \<open>prevL = prevR = 0\<close> is \<open>init_state\<close>.\<close>

definition main_effects :: "trigger_policy \<Rightarrow> port_env \<Rightarrow> (effect list \<times> exc) option" where
  "main_effects pol env =
     (if \<not> port_opens env then Some ([OpenPort PORT BAUD READ_TIMEOUT], SerialException)
      else if settle_interrupted env then
        Some ([OpenPort PORT BAUD READ_TIMEOUT, Sleep SETTLE_DELAY_MS, ClosePort], KeyboardInterrupt)
      else
        Option.bind (serve pol init_state (port_reads env))
          (\<lambda>(as, x). Some ([OpenPort PORT BAUD READ_TIMEOUT, Sleep SETTLE_DELAY_MS, Print LISTENING_MSG] @
                            map Pointer as @ [ClosePort], x)))"

text \<open>The module run as a script: the controller of line 24, then lines 73 to 77.\<close>

definition entry :: "trigger_policy \<Rightarrow> port_env \<Rightarrow> (effect list \<times> nat) option" where
  "entry pol env =
     Option.bind (main_effects pol env)
       (\<lambda>(effs, x). Some (CreateController # effs @
          (if x = KeyboardInterrupt then [Print STOPPED_MSG] else [Traceback (exc_name x)]),
          if x = KeyboardInterrupt then 0 else 1))"

definition program :: "port_env \<Rightarrow> (effect list \<times> nat) option" where
  "program env = entry (policy_of EDGE_CLICK) env"

text \<open>The pointer actions among the effects.\<close>

definition pointer_actions :: "effect list \<Rightarrow> action list" where
  "pointer_actions effs = concat (map (\<lambda>e. case e of Pointer a \<Rightarrow> [a] | _ \<Rightarrow> []) effs)"

section \<open>Lemmas\<close>

lemma entry_cases:
  assumes "entry pol env = Some (effs, c)"
  shows "(\<not> port_opens env \<and> effs = [CreateController, OpenPort PORT BAUD READ_TIMEOUT, Traceback ''SerialException''] \<and> c = 1) \<or>
         (port_opens env \<and> settle_interrupted env \<and>
            effs = [CreateController, OpenPort PORT BAUD READ_TIMEOUT, Sleep SETTLE_DELAY_MS, ClosePort, Print STOPPED_MSG] \<and> c = 0) \<or>
         (\<exists>as x. port_opens env \<and> \<not> settle_interrupted env \<and> serve pol init_state (port_reads env) = Some (as, x) \<and>
            effs = [CreateController, OpenPort PORT BAUD READ_TIMEOUT, Sleep SETTLE_DELAY_MS, Print LISTENING_MSG] @
                     map Pointer as @ [ClosePort] @
                     (if x = KeyboardInterrupt then [Print STOPPED_MSG] else [Traceback (exc_name x)]) \<and>
            c = (if x = KeyboardInterrupt then 0 else 1))"
proof (cases "port_opens env \<and> \<not> settle_interrupted env")
  case False
  with assms show ?thesis by (auto simp: entry_def main_effects_def split: if_splits)
next
  case True
  with assms obtain as x where r: "serve pol init_state (port_reads env) = Some (as, x)"
    by (cases "serve pol init_state (port_reads env)") (auto simp: entry_def main_effects_def)
  with True assms have "effs = [CreateController, OpenPort PORT BAUD READ_TIMEOUT, Sleep SETTLE_DELAY_MS, Print LISTENING_MSG] @
                     map Pointer as @ [ClosePort] @
                     (if x = KeyboardInterrupt then [Print STOPPED_MSG] else [Traceback (exc_name x)]) \<and>
            c = (if x = KeyboardInterrupt then 0 else 1)"
    by (simp add: entry_def main_effects_def)
  with True r show ?thesis by blast
qed

lemma pointer_actions_append: "pointer_actions (xs @ ys) = pointer_actions xs @ pointer_actions ys"
  by (simp add: pointer_actions_def)

lemma pointer_actions_map: "pointer_actions (map Pointer as) = as"
  by (induction as) (simp_all add: pointer_actions_def)

lemma run_loop_no_Interrupt: "Interrupt \<notin> set evs \<Longrightarrow> snd (run_loop pol st evs) \<noteq> Stopped"
  by (induction pol st evs rule: run_loop.induct) (auto simp: split_beta split: sum.splits)

lemma os_run_button: "h b = h' b \<Longrightarrow> os_run h as b = os_run h' (actions_of b as) b"
proof (induction as arbitrary: h h')
  case Nil
  then show ?case by (simp add: os_run_def)
next
  case (Cons a as)
  show ?case
  proof (cases "action_button a = Some b")
    case True
    then have "os_apply h a b = os_apply h' a b" using Cons.prems by (cases a) simp_all
    from Cons.IH [where h = "os_apply h a" and h' = "os_apply h' a", OF this] True
    show ?thesis by (simp add: os_run_def actions_of_def)
  next
    case False
    then have "os_apply h a b = h' b" using Cons.prems by (cases a) auto
    from Cons.IH [where h = "os_apply h a" and h' = h', OF this] False
    show ?thesis by (simp add: os_run_def actions_of_def)
  qed
qed

lemma os_run_button_run:
  "h b = (prev_of b st \<noteq> 0) \<Longrightarrow>
   os_run h (fst (button_run PressHold st fs)) b = (prev_of b (snd (button_run PressHold st fs)) \<noteq> 0)"
proof (induction fs arbitrary: st h)
  case Nil
  then show ?case by (simp add: os_run_def)
next
  case (Cons f fs)
  obtain L R where f: "f = (L, R)" by fastforce
  have "os_run h (click_handling PressHold st L R) b = (prev_of b (st\<lparr>prevL := L, prevR := R\<rparr>) \<noteq> 0)"
    using Cons.prems by (simp add: os_run_click_handling prev_of_update)
  from Cons.IH [where st = "st\<lparr>prevL := L, prevR := R\<rparr>" and h = "os_run h (click_handling PressHold st L R)", OF this] f
  show ?case
    by (simp add: button_run_Cons split_beta os_run_append button_step_def)
qed

lemma entry_served:
  "port_opens env \<Longrightarrow> \<not> settle_interrupted env \<Longrightarrow> serve pol init_state (port_reads env) = Some (as, x) \<Longrightarrow>
   entry pol env = Some ([CreateController, OpenPort PORT BAUD READ_TIMEOUT, Sleep SETTLE_DELAY_MS, Print LISTENING_MSG] @
                     map Pointer as @ [ClosePort] @
                     (if x = KeyboardInterrupt then [Print STOPPED_MSG] else [Traceback (exc_name x)]),
                   if x = KeyboardInterrupt then 0 else 1)"
  by (simp add: entry_def main_effects_def)

lemma serve_one_read:
  "raised (snd (run_loop pol init_state [Read bs, Interrupt])) = Some KeyboardInterrupt \<Longrightarrow>
   serve pol init_state (Read bs ## sconst Interrupt) = Some (fst (run_loop pol init_state [Read bs, Interrupt]), KeyboardInterrupt)"
  using serve_prefix_raised [of pol init_state 2 "Read bs ## sconst Interrupt" KeyboardInterrupt]
  by (simp add: numeral_2_eq_2)

lemma pointer_actions_served:
  "pointer_actions ([CreateController, OpenPort p b t, Sleep d, Print m] @ map Pointer as @ [ClosePort] @ [Print m']) = as"
  by (simp only: pointer_actions_append pointer_actions_map) (simp add: pointer_actions_def)

text \<open>The pointer actions of a run that ends by the interrupt at the read \<open>n\<close>, the first
  interrupt of the port: those of the finite loop over the reads before it, which leaves the
  loop running.\<close>

lemma serve_first_Interrupt:
  assumes ret: "serve pol st evs = Some (as, KeyboardInterrupt)"
    and n: "snth evs n = Interrupt" and before: "\<forall>i<n. snth evs i \<noteq> Interrupt"
  shows "\<exists>st'. run_loop pol st (stake n evs) = (as, Running st')"
proof -
  have ni: "Interrupt \<notin> set (stake n evs)"
    using before by (auto simp: in_set_conv_nth)
  obtain as0 out0 where r0: "run_loop pol st (stake n evs) = (as0, out0)" by fastforce
  have "out0 \<noteq> Stopped" using run_loop_no_Interrupt [OF ni, of pol st] r0 by simp
  moreover have "\<forall>e. out0 \<noteq> Crashed e"
  proof
    fix e
    show "out0 \<noteq> Crashed e"
    proof
      assume "out0 = Crashed e"
      with r0 serve_prefix_raised [of pol st n evs "Raised e"] ret show False by simp
    qed
  qed
  ultimately obtain st' where st': "out0 = Running st'" by (cases out0) auto
  have r0': "run_loop pol st (stake n evs) = (as0, Running st')" using r0 st' by simp
  have "run_loop pol st (stake (Suc n) evs) = (as0, Stopped)"
    unfolding stake_Suc using run_loop_append [OF r0', of "[snth evs n]"] n by simp
  with serve_prefix_raised [of pol st "Suc n" evs KeyboardInterrupt] ret have "as = as0" by simp
  with r0 st' show ?thesis by blast
qed

section \<open>Properties of the whole program\<close>

text \<open>C31: Transport open failure (spec section 7): when \<open>serial.Serial\<close> cannot open the
  port, the program makes no pointer action, does not print its banner, reports
  \<open>SerialException\<close> and exits with status 1, whatever the port would have delivered.\<close>

theorem program_open_failure:
  "\<not> port_opens env \<Longrightarrow>
   program env = Some ([CreateController, OpenPort ''/dev/cu.usbmodem14101'' 9600 1, Traceback ''SerialException''], 1)"
  by (simp add: program_def entry_def main_effects_def PORT_def BAUD_def READ_TIMEOUT_def)

theorem program_open_failure_witness:
  "program \<lparr>port_opens = False, settle_interrupted = False, port_reads = sconst (Read (pyb ''1,1,1,1''))\<rparr> =
     Some ([CreateController, OpenPort ''/dev/cu.usbmodem14101'' 9600 1, Traceback ''SerialException''], 1)"
proof -
  have h: "\<not> port_opens \<lparr>port_opens = False, settle_interrupted = False, port_reads = sconst (Read (pyb ''1,1,1,1''))\<rparr>"
    by simp
  show ?thesis by (rule program_open_failure [OF h])
qed

text \<open>C32: Ordering: every pointer action of a run comes after the port was opened, the
  two-second settle delay and the banner, and before the port is closed.\<close>

theorem entry_pointer_order:
  assumes "entry pol env = Some (effs, c)" and "Pointer a \<in> set effs"
  shows "\<exists>xs ys. effs = xs @ Pointer a # ys \<and> Sleep SETTLE_DELAY_MS \<in> set xs \<and>
                 Print LISTENING_MSG \<in> set xs \<and> ClosePort \<in> set ys"
proof -
  have "\<exists>as x. effs = [CreateController, OpenPort PORT BAUD READ_TIMEOUT, Sleep SETTLE_DELAY_MS, Print LISTENING_MSG] @
                     map Pointer as @ [ClosePort] @
                     (if x = KeyboardInterrupt then [Print STOPPED_MSG] else [Traceback (exc_name x)])"
    using entry_cases [OF assms(1)] assms(2) by (elim disjE exE conjE) (simp, simp, blast)
  then obtain as x where
    effs: "effs = [CreateController, OpenPort PORT BAUD READ_TIMEOUT, Sleep SETTLE_DELAY_MS, Print LISTENING_MSG] @
                     map Pointer as @ [ClosePort] @
                     (if x = KeyboardInterrupt then [Print STOPPED_MSG] else [Traceback (exc_name x)])"
    by blast
  with assms(2) have "Pointer a \<in> set (map Pointer as)" by (auto split: if_splits)
  then obtain us vs where "map Pointer as = us @ Pointer a # vs" by (meson split_list)
  with effs have e: "effs = ([CreateController, OpenPort PORT BAUD READ_TIMEOUT, Sleep SETTLE_DELAY_MS, Print LISTENING_MSG] @ us) @
      Pointer a # (vs @ [ClosePort] @ (if x = KeyboardInterrupt then [Print STOPPED_MSG] else [Traceback (exc_name x)]))"
    by simp
  show ?thesis
    by (rule exI [of _ "[CreateController, OpenPort PORT BAUD READ_TIMEOUT, Sleep SETTLE_DELAY_MS, Print LISTENING_MSG] @ us"],
        rule exI [of _ "vs @ [ClosePort] @ (if x = KeyboardInterrupt then [Print STOPPED_MSG] else [Traceback (exc_name x)])"])
      (simp add: e)
qed

theorem entry_pointer_order_witness:
  "entry EdgeClick \<lparr>port_opens = True, settle_interrupted = False,
                    port_reads = Read (pyb ''0,0,1,0'') ## sconst Interrupt\<rparr> =
     Some ([CreateController, OpenPort PORT BAUD READ_TIMEOUT, Sleep SETTLE_DELAY_MS, Print LISTENING_MSG,
            Pointer (Click Left), ClosePort, Print STOPPED_MSG], 0) \<and>
   Pointer (Click Left) \<in> set [CreateController, OpenPort PORT BAUD READ_TIMEOUT, Sleep SETTLE_DELAY_MS,
            Print LISTENING_MSG, Pointer (Click Left), ClosePort, Print STOPPED_MSG] \<and>
   (\<exists>xs ys. [CreateController, OpenPort PORT BAUD READ_TIMEOUT, Sleep SETTLE_DELAY_MS, Print LISTENING_MSG,
            Pointer (Click Left), ClosePort, Print STOPPED_MSG] = xs @ Pointer (Click Left) # ys \<and>
      Sleep SETTLE_DELAY_MS \<in> set xs \<and> Print LISTENING_MSG \<in> set xs \<and> ClosePort \<in> set ys)"
proof -
  have s: "stake 2 (Read (pyb ''0,0,1,0'') ## sconst Interrupt) = [Read (pyb ''0,0,1,0''), Interrupt]"
    by (simp add: numeral_2_eq_2)
  have "raised (snd (run_loop EdgeClick init_state (stake 2 (Read (pyb ''0,0,1,0'') ## sconst Interrupt)))) =
     Some KeyboardInterrupt"
    unfolding s by (simp add: loop_eval)
  from serve_prefix_raised [OF this]
  have "serve EdgeClick init_state (Read (pyb ''0,0,1,0'') ## sconst Interrupt) = Some ([Click Left], KeyboardInterrupt)"
    unfolding s by (simp add: loop_eval)
  then have h1: "entry EdgeClick \<lparr>port_opens = True, settle_interrupted = False,
                    port_reads = Read (pyb ''0,0,1,0'') ## sconst Interrupt\<rparr> =
     Some ([CreateController, OpenPort PORT BAUD READ_TIMEOUT, Sleep SETTLE_DELAY_MS, Print LISTENING_MSG,
            Pointer (Click Left), ClosePort, Print STOPPED_MSG], 0)"
    by (simp add: entry_def main_effects_def)
  have h2: "Pointer (Click Left) \<in> set [CreateController, OpenPort PORT BAUD READ_TIMEOUT, Sleep SETTLE_DELAY_MS,
            Print LISTENING_MSG, Pointer (Click Left), ClosePort, Print STOPPED_MSG]" by simp
  show ?thesis using h1 h2 entry_pointer_order [OF h1 h2] by blast
qed

text \<open>C33: Exit status (spec section 7): a run ends with status 0 exactly when the exception
  that left \<open>main()\<close> is \<open>KeyboardInterrupt\<close>, and then prints \<open>Stopped.\<close> last; when
  any other exception left it (\<open>SerialException\<close> from the port, \<open>OverflowError\<close> from the
  motion dispatch) the status is 1 and the last thing printed is that exception's
  traceback.\<close>

theorem entry_exit_status:
  assumes "entry pol env = Some (effs, c)"
  shows "\<exists>effs' x. main_effects pol env = Some (effs', x) \<and>
           c = (if x = KeyboardInterrupt then 0 else 1) \<and>
           last effs = (if x = KeyboardInterrupt then Print STOPPED_MSG else Traceback (exc_name x))"
proof -
  obtain effs' x where m: "main_effects pol env = Some (effs', x)"
    using assms by (cases "main_effects pol env") (auto simp: entry_def)
  with assms have "effs = CreateController # effs' @
                     (if x = KeyboardInterrupt then [Print STOPPED_MSG] else [Traceback (exc_name x)])"
    and "c = (if x = KeyboardInterrupt then 0 else 1)"
    by (simp_all add: entry_def)
  with m show ?thesis by simp
qed

theorem entry_exit_status_witness:
  "entry EdgeClick \<lparr>port_opens = False, settle_interrupted = False, port_reads = sconst Interrupt\<rparr> =
     Some ([CreateController, OpenPort PORT BAUD READ_TIMEOUT, Traceback ''SerialException''], 1) \<and>
   main_effects EdgeClick \<lparr>port_opens = False, settle_interrupted = False, port_reads = sconst Interrupt\<rparr> =
     Some ([OpenPort PORT BAUD READ_TIMEOUT], SerialException)"
proof -
  have h: "entry EdgeClick \<lparr>port_opens = False, settle_interrupted = False, port_reads = sconst Interrupt\<rparr> =
     Some ([CreateController, OpenPort PORT BAUD READ_TIMEOUT, Traceback ''SerialException''], 1)"
    by (simp add: entry_def main_effects_def)
  show ?thesis using h entry_exit_status [OF h] by (auto simp: main_effects_def)
qed

text \<open>C34: The port is released: a run that opened the port closes it, right before the
  final message, and a run that could not open it never closes it.\<close>

theorem entry_port_closed:
  "entry pol env = Some (effs, c) \<Longrightarrow>
   (if port_opens env then last (butlast effs) = ClosePort else ClosePort \<notin> set effs)"
  by (drule entry_cases) (auto simp: last_append butlast_append)

theorem entry_port_closed_witness:
  "entry EdgeClick \<lparr>port_opens = True, settle_interrupted = False, port_reads = Read (pyb ''99999'') ## sconst Interrupt\<rparr> =
     Some ([CreateController, OpenPort PORT BAUD READ_TIMEOUT, Sleep SETTLE_DELAY_MS, Print LISTENING_MSG,
            ClosePort, Print STOPPED_MSG], 0) \<and>
   last (butlast [CreateController, OpenPort PORT BAUD READ_TIMEOUT, Sleep SETTLE_DELAY_MS, Print LISTENING_MSG,
            ClosePort, Print STOPPED_MSG]) = ClosePort"
proof -
  have "serve EdgeClick init_state (Read (pyb ''99999'') ## sconst Interrupt) = Some ([], KeyboardInterrupt)"
    using serve_one_read [of EdgeClick "pyb ''99999''"] by (simp add: loop_eval)
  then have h: "entry EdgeClick \<lparr>port_opens = True, settle_interrupted = False, port_reads = Read (pyb ''99999'') ## sconst Interrupt\<rparr> =
     Some ([CreateController, OpenPort PORT BAUD READ_TIMEOUT, Sleep SETTLE_DELAY_MS, Print LISTENING_MSG,
            ClosePort, Print STOPPED_MSG], 0)"
    by (simp add: entry_served)
  show ?thesis using h entry_port_closed [OF h] by simp
qed

text \<open>C35: Termination: when the port reports an interrupt at some read, the program ends,
  whatever happened before (an open failure, an interrupt during the settle delay, an
  exception of the loop or the interrupt itself).\<close>

theorem entry_terminates:
  "snth (port_reads env) n = Interrupt \<Longrightarrow> \<exists>effs c. entry pol env = Some (effs, c)"
proof -
  assume n: "snth (port_reads env) n = Interrupt"
  show ?thesis
  proof (cases "port_opens env \<and> \<not> settle_interrupted env")
    case True
    from serve_Interrupt_ends [OF n, of pol init_state] obtain as x where
      "serve pol init_state (port_reads env) = Some (as, x)" by blast
    with True show ?thesis by (simp add: entry_served)
  next
    case False
    then show ?thesis by (auto simp: entry_def main_effects_def)
  qed
qed

theorem entry_terminates_witness:
  "\<exists>effs c. entry EdgeClick \<lparr>port_opens = True, settle_interrupted = False,
                  port_reads = Read (pyb ''1,0,0,0'') ## Read [] ## sconst Interrupt\<rparr> = Some (effs, c)"
proof -
  have h: "snth (port_reads \<lparr>port_opens = True, settle_interrupted = False,
                  port_reads = Read (pyb ''1,0,0,0'') ## Read [] ## sconst Interrupt\<rparr>) 2 = Interrupt"
    by (simp add: numeral_2_eq_2)
  show ?thesis by (rule entry_terminates [OF h])
qed

text \<open>C36: Under PressHold, a program stopped by the interrupt leaves every button held in the
  system whose last reported level was non-zero: the loop releases nothing on its way out,
  though spec section 5 says there is no state to flush at exit.\<close>

theorem press_hold_exit_held:
  assumes run: "entry PressHold env = Some (effs, 0)" and settled: "\<not> settle_interrupted env"
    and n: "snth (port_reads env) n = Interrupt" and before: "\<forall>i<n. snth (port_reads env) i \<noteq> Interrupt"
  shows "os_run (\<lambda>_. False) (pointer_actions effs) b =
           (prev_of b (snd (button_run PressHold init_state
              (map frame_levels (decoded_frames (stake n (port_reads env)))))) \<noteq> 0)"
proof -
  let ?br = "button_run PressHold init_state (map frame_levels (decoded_frames (stake n (port_reads env))))"
  from entry_cases [OF run] settled obtain as where
    ret: "serve PressHold init_state (port_reads env) = Some (as, KeyboardInterrupt)" and
    effs: "effs = [CreateController, OpenPort PORT BAUD READ_TIMEOUT, Sleep SETTLE_DELAY_MS, Print LISTENING_MSG] @
                    map Pointer as @ [ClosePort] @ [Print STOPPED_MSG]"
    by (auto split: if_splits)
  from serve_first_Interrupt [OF ret n before] obtain st' where
    r: "run_loop PressHold init_state (stake n (port_reads env)) = (as, Running st')" by blast
  have "actions_of b as = actions_of b (fst ?br)"
    using run_loop_frames [OF r] by simp
  then have "os_run (\<lambda>_. False) as b = os_run (\<lambda>_. False) (fst ?br) b"
    using os_run_button [of "\<lambda>_. False" b "\<lambda>_. False" as] os_run_button [of "\<lambda>_. False" b "\<lambda>_. False" "fst ?br"]
    by simp
  also have "\<dots> = (prev_of b (snd ?br) \<noteq> 0)"
    by (rule os_run_button_run) simp
  finally show ?thesis using effs by (simp only: pointer_actions_served)
qed

theorem press_hold_exit_held_witness:
  "entry PressHold \<lparr>port_opens = True, settle_interrupted = False,
                    port_reads = Read (pyb ''0,0,1,0'') ## sconst Interrupt\<rparr> =
     Some ([CreateController, OpenPort PORT BAUD READ_TIMEOUT, Sleep SETTLE_DELAY_MS, Print LISTENING_MSG,
            Pointer (Press Left), ClosePort, Print STOPPED_MSG], 0) \<and>
   os_run (\<lambda>_. False) (pointer_actions [CreateController, OpenPort PORT BAUD READ_TIMEOUT, Sleep SETTLE_DELAY_MS,
            Print LISTENING_MSG, Pointer (Press Left), ClosePort, Print STOPPED_MSG]) Left"
proof -
  let ?env = "\<lparr>port_opens = True, settle_interrupted = False,
                    port_reads = Read (pyb ''0,0,1,0'') ## sconst Interrupt\<rparr>"
  have "serve PressHold init_state (Read (pyb ''0,0,1,0'') ## sconst Interrupt) = Some ([Press Left], KeyboardInterrupt)"
    using serve_one_read [of PressHold "pyb ''0,0,1,0''"] by (simp add: loop_eval)
  then have h1: "entry PressHold ?env =
     Some ([CreateController, OpenPort PORT BAUD READ_TIMEOUT, Sleep SETTLE_DELAY_MS, Print LISTENING_MSG,
            Pointer (Press Left), ClosePort, Print STOPPED_MSG], 0)"
    by (simp add: entry_served)
  have h2: "\<not> settle_interrupted ?env" by simp
  have h3: "snth (port_reads ?env) 1 = Interrupt" by simp
  have h4: "\<forall>i<1. snth (port_reads ?env) i \<noteq> Interrupt" by simp
  have "decoded_frames (stake 1 (port_reads ?env)) = [(0, 0, 1, 0)]"
    by (simp add: loop_eval)
  then show ?thesis
    using h1 press_hold_exit_held [OF h1 h2 h3 h4, of Left]
    by (simp add: frame_levels_def button_step_def click_handling_def press_hold_def prev_of_def init_state_def)
qed

end
