(* ===== verification/Transport.thy ===== *)
theory Transport
  imports Program
begin

text \<open>
  The serial transport under the read of \<open>src/MouseTracking/python_code.py\<close>, line 36:
  \<open>ser.readline()\<close> of pyserial on a port opened with \<open>timeout=1\<close> (line 30), modelled
  from pyserial 3's behaviour: \<open>Serial.readline\<close> is \<open>io.IOBase.readline\<close>, which calls
  \<open>read(1)\<close> until it has read the newline \<open>b'\n'\<close> or a \<open>read(1)\<close> returns nothing, and
  each \<open>read(1)\<close> waits at most the timeout, counted from its own call. The bytes the
  device sends arrive at the host at known times (milliseconds) and wait in the driver's
  buffer until read. A \<open>read(1)\<close> called at time \<open>t\<close> returns the next byte when it has
  arrived, at once if it is waiting in the buffer; if no byte arrives by \<open>t + 1000\<close> it
  returns nothing and \<open>readline()\<close> returns the bytes read so far, possibly none. The next call starts when the previous one returned (the loop body
  takes no time in the model). The stream of read events the loop sees is then
  \<open>port_stream\<close>, and a line of the device arrives whole exactly when its bytes are not
  late for the call that reads them.
\<close>

section \<open>Definitions\<close>

type_synonym arrival = "nat \<times> byte"

definition READ_TIMEOUT_MS :: nat where
  "READ_TIMEOUT_MS = READ_TIMEOUT * 1000"

text \<open>One call of \<open>readline()\<close> whose next \<open>read(1)\<close> is called at time \<open>t\<close>, on the
  arrivals not read yet: the line, the time the call returns, and the arrivals left. The
  next \<open>read(1)\<close> is called when the byte before was obtained, at \<open>max t ta\<close>.\<close>

fun readline :: "nat \<Rightarrow> arrival list \<Rightarrow> byte list \<times> nat \<times> arrival list" where
  "readline t [] = ([], t + READ_TIMEOUT_MS, [])"
| "readline t ((ta, b) # rest) =
     (if t + READ_TIMEOUT_MS < ta then ([], t + READ_TIMEOUT_MS, (ta, b) # rest)
      else if b = 10 then ([b], max t ta, rest)
      else (case readline (max t ta) rest of (l, t', r) \<Rightarrow> (b # l, t', r)))"

text \<open>The reads of the loop from time \<open>t\<close> on: one \<open>readline()\<close> after the other.\<close>

primcorec port_stream :: "nat \<Rightarrow> arrival list \<Rightarrow> read_event stream" where
  "port_stream t as =
     Read (fst (readline t as)) ## port_stream (fst (snd (readline t as))) (snd (snd (readline t as)))"

text \<open>The bytes of the line the device prints for a frame (\<open>Serial.println\<close>: the fields,
  then \<open>\r\n\<close>).\<close>

definition device_line :: "frame \<Rightarrow> byte list" where
  "device_line f = map byte_of (format_frame f @ [13, 10])"

text \<open>A line of arrivals is whole: it ends with the newline and has no other.\<close>

definition line_ok :: "arrival list \<Rightarrow> bool" where
  "line_ok l = (l \<noteq> [] \<and> snd (last l) = 10 \<and> 10 \<notin> set (map snd (butlast l)))"

text \<open>The time the last of a list of arrivals has been read, reading from time \<open>t\<close>.\<close>

definition line_end :: "nat \<Rightarrow> arrival list \<Rightarrow> nat" where
  "line_end t l = fold (\<lambda>(ta, b) t. max t ta) l t"

text \<open>Bytes each of which arrives within the read timeout after the one before (after the
  time \<open>t\<close> the reading starts, for the first), and lines of such bytes, each read from
  the time the line before was read.\<close>

fun bytes_timely :: "nat \<Rightarrow> arrival list \<Rightarrow> bool" where
  "bytes_timely t [] = True"
| "bytes_timely t ((ta, b) # l) = (ta \<le> t + READ_TIMEOUT_MS \<and> bytes_timely (max t ta) l)"

fun timely :: "nat \<Rightarrow> arrival list list \<Rightarrow> bool" where
  "timely t [] = True"
| "timely t (l # ls) = (bytes_timely t l \<and> timely (line_end t l) ls)"

section \<open>Lemmas\<close>

lemma readline_line:
  assumes "line_ok l" and "bytes_timely t l"
  shows "readline t (l @ rest) = (map snd l, line_end t l, rest)"
  using assms
proof (induction l arbitrary: t)
  case Nil
  then show ?case by (simp add: line_ok_def)
next
  case (Cons a l)
  obtain ta b where a: "a = (ta, b)" by fastforce
  show ?case
  proof (cases "l = []")
    case True
    with Cons.prems a show ?thesis by (simp add: line_ok_def line_end_def)
  next
    case False
    with Cons.prems a have b: "b \<noteq> 10" and l: "line_ok l" by (auto simp: line_ok_def)
    from Cons.prems a have ta: "ta \<le> t + READ_TIMEOUT_MS" and lt: "bytes_timely (max t ta) l" by simp_all
    from Cons.IH [OF l lt] b ta a show ?thesis by (simp add: line_end_def)
  qed
qed

lemma port_stream_lines:
  assumes "timely t ls" and "list_all line_ok ls"
  shows "stake (length ls) (port_stream t (concat ls @ rest)) = map (\<lambda>l. Read (map snd l)) ls"
  using assms
proof (induction ls arbitrary: t)
  case Nil
  then show ?case by simp
next
  case (Cons l ls)
  have r: "readline t (l @ concat ls @ rest) = (map snd l, line_end t l, concat ls @ rest)"
    using Cons.prems by (simp add: readline_line)
  have "stake (length ls) (port_stream (line_end t l) (concat ls @ rest)) = map (\<lambda>l. Read (map snd l)) ls"
    using Cons.prems by (intro Cons.IH) simp_all
  with r show ?case by simp
qed

lemma bytes_timely_burst: "ta \<le> t + READ_TIMEOUT_MS \<Longrightarrow> bytes_timely t (map (\<lambda>b. (ta, b)) bs)"
proof (induction bs arbitrary: t)
  case (Cons b bs)
  then show ?case by (simp add: max_def)
qed simp

lemma fold_max_burst: "ta \<le> (u::nat) \<Longrightarrow> fold (\<lambda>(ta, b) t. max t ta) (map (\<lambda>b. (ta, b)) bs) u = u"
proof (induction bs)
  case (Cons c bs)
  have "max u ta = u" using Cons.prems by (simp add: max_def antisym_conv)
  with Cons show ?case by simp
qed simp

lemma line_end_burst: "bs \<noteq> [] \<Longrightarrow> line_end t (map (\<lambda>b. (ta, b)) bs) = max t ta"
  by (cases bs) (simp_all add: line_end_def fold_max_burst)

lemma device_line_ne: "device_line f \<noteq> []"
  by (simp add: device_line_def)

lemma decimal_str_ge: "c \<in> set (decimal_str i) \<Longrightarrow> 44 \<le> c"
  by (auto simp: decimal_str_def split: if_splits)

lemma format_frame_ge: "c \<in> set (format_frame f) \<Longrightarrow> 44 \<le> c"
proof -
  assume c: "c \<in> set (format_frame f)"
  obtain dx dy L R where f: "f = (dx, dy, L, R)" by (cases f) auto
  show "44 \<le> c"
  proof (cases "c = COMMA")
    case True
    then show ?thesis by (simp add: COMMA_def)
  next
    case False
    with c f obtain p where "p \<in> set (map decimal_str [dx, dy, L, R])" "c \<in> set p"
      using set_py_join_piece by (fastforce simp: format_frame.simps)
    then show ?thesis using decimal_str_ge by auto
  qed
qed

lemma device_line_ok:
  "map snd l = device_line f \<Longrightarrow> line_ok l"
proof -
  assume l: "map snd l = device_line f"
  have ne: "l \<noteq> []" using l by (auto simp: device_line_def)
  have last: "snd (last l) = 10"
    using l ne by (simp add: device_line_def last_map [symmetric] byte_of_def)
  have "map snd (butlast l) = butlast (device_line f)"
    using l by (simp add: map_butlast)
  also have "\<dots> = map byte_of (format_frame f @ [13])"
    by (simp add: device_line_def butlast_append)
  finally have "map snd (butlast l) = map byte_of (format_frame f @ [13])" .
  moreover have "byte_of c \<noteq> 10" if "c \<in> set (format_frame f @ [13])" for c
  proof -
    have "c < 128" using that format_frame_ascii [of f] by (auto simp: list_all_iff)
    moreover have "c \<noteq> 10" using that format_frame_ge [of c f] by auto
    ultimately show ?thesis using unat_byte_of [of c] by auto
  qed
  ultimately have "10 \<notin> set (map snd (butlast l))" by auto
  with ne last show ?thesis by (simp add: line_ok_def)
qed

lemma decode_device_line: "frame_fits f \<Longrightarrow> decode_line (utf8_decode (device_line f)) = Inr f"
proof -
  assume fits: "frame_fits f"
  have ascii: "list_all (\<lambda>c. c < 128) (format_frame f @ [13, 10])"
    using format_frame_ascii [of f] by simp
  have "list_all py_isspace [13, 10]" by (simp add: py_isspace_def)
  then show ?thesis
    using utf8_decode_byte_of_ascii [OF ascii] decode_line_format_frame [OF fits, of "[]" "[13, 10]"]
    by (simp add: device_line_def)
qed

lemma decoded_frames_device_lines:
  "list_all frame_fits fs \<Longrightarrow> decoded_frames (map (\<lambda>f. Read (device_line f)) fs) = fs"
  by (induction fs) (simp_all add: decode_device_line)

lemma stake_two: "stake 2 s = [shd s, shd (stl s)]"
  by (simp add: numeral_2_eq_2)

lemma port_stream_device_reads:
  assumes "timely t ls" and "map (map snd) ls = map device_line fs"
  shows "stake (length fs) (port_stream t (concat ls @ rest)) = map (\<lambda>f. Read (device_line f)) fs"
proof -
  have len: "length ls = length fs" using arg_cong [OF assms(2), of length] by simp
  have ok: "list_all line_ok ls"
  proof (unfold list_all_iff, intro ballI)
    fix l assume "l \<in> set ls"
    then obtain i where i: "i < length ls" "l = ls ! i" by (auto simp: in_set_conv_nth)
    have "map snd l = device_line (fs ! i)"
      using arg_cong [OF assms(2), of "\<lambda>xs. xs ! i"] i len by simp
    then show "line_ok l" by (rule device_line_ok)
  qed
  have "stake (length fs) (port_stream t (concat ls @ rest)) = map (\<lambda>l. Read (map snd l)) ls"
    using port_stream_lines [OF assms(1) ok] len by simp
  also have "\<dots> = map Read (map (map snd) ls)" by simp
  also have "\<dots> = map (\<lambda>f. Read (device_line f)) fs" using assms(2) by simp
  finally show ?thesis .
qed

lemma device_line_neg: "dx < 0 \<Longrightarrow> device_line (dx, dy, L, R) = 45 # device_line (- dx, dy, L, R)"
  by (simp add: device_line_def format_frame.simps decimal_str_def byte_of_def)

lemma frame_fits_neg: "frame_fits (- dx, dy, L, R) = frame_fits (dx, dy, L, R)"
  by simp

lemma decode_minus_only: "decode_line [45] = Inl (FieldCount 1)"
  by (simp add: loop_eval)

section \<open>Properties of the transport\<close>

text \<open>C39: Composition of the transport and the decoder: when the device prints frames
  whose fields have at most 4300 digits, and every byte arrives within the read timeout after
  the byte before (the first after the newline of the line before), each \<open>readline()\<close>
  returns one whole line and the loop decodes exactly the device's frames, in order, none
  lost, split or merged.\<close>

theorem port_stream_frames:
  assumes "timely t ls" and "map (map snd) ls = map device_line fs" and "list_all frame_fits fs"
  shows "decoded_frames (stake (length fs) (port_stream t (concat ls @ rest))) = fs"
  using port_stream_device_reads [OF assms(1,2)] decoded_frames_device_lines [OF assms(3)] by simp

theorem port_stream_frames_witness:
  "decoded_frames (stake (length [(1::int, 0::int, 0::int, 0::int), (0, 0, 1, 0)])
     (port_stream 0 (concat [map (\<lambda>b. (900, b)) (device_line (1, 0, 0, 0)),
                              map (\<lambda>b. (1800, b)) (device_line (0, 0, 1, 0))] @ []))) =
   [(1, 0, 0, 0), (0, 0, 1, 0)]"
proof -
  let ?ls = "[map (\<lambda>b. (900::nat, b)) (device_line (1, 0, 0, 0)), map (\<lambda>b. (1800::nat, b)) (device_line (0, 0, 1, 0))]"
  have h1: "timely 0 ?ls"
    by (simp add: bytes_timely_burst line_end_burst device_line_ne READ_TIMEOUT_MS_def READ_TIMEOUT_def)
  have h2: "map (map snd) ?ls = map device_line [(1, 0, 0, 0), (0, 0, 1, 0)]"
    by (simp add: comp_def)
  have h3: "list_all frame_fits [(1, 0, 0, 0), (0, 0, 1, 0)]"
    using ten_le_pow_max_digits by simp
  show ?thesis by (rule port_stream_frames [OF h1 h2 h3])
qed

text \<open>C9: A line cut by the read timeout is not dropped: when the device prints a frame
  with a negative \<open>dx\<close> and the bytes after the sign come more than the timeout after it
  (within the next call's timeout), the first read returns \<open>-\<close> alone, which is skipped, and
  the second returns the rest of the line, a valid frame: the pointer moves by \<open>-dx\<close>, in
  the opposite direction to the one the device reported.\<close>

theorem port_split_sign_flip:
  assumes "dx < 0" and "frame_fits (dx, dy, L, R)" and "device_line (dx, dy, L, R) = b # bs"
    and "t \<le> t1" and "t1 \<le> t + READ_TIMEOUT_MS"
    and "t1 + READ_TIMEOUT_MS < t2" and "t2 \<le> t1 + 2 * READ_TIMEOUT_MS"
  shows "decoded_frames (stake 2 (port_stream t ((t1, b) # map (\<lambda>c. (t2, c)) bs @ rest))) = [(- dx, dy, L, R)]"
proof -
  have b: "b = 45" and bs: "bs = device_line (- dx, dy, L, R)"
    using assms(3) device_line_neg [OF assms(1), of dy L R] by simp_all
  from device_line_ne [of "(- dx, dy, L, R)"] bs obtain c cs where cs: "bs = c # cs"
    by (auto simp: neq_Nil_conv)
  have r1: "readline t ((t1, b) # map (\<lambda>c. (t2, c)) bs @ rest) =
              ([45], t1 + READ_TIMEOUT_MS, map (\<lambda>c. (t2, c)) bs @ rest)"
    using assms(4-6) b cs by (simp add: max_def)
  have ok: "line_ok (map (\<lambda>c. (t2, c)) bs)" by (rule device_line_ok) (simp add: bs comp_def)
  have tm: "bytes_timely (t1 + READ_TIMEOUT_MS) (map (\<lambda>c. (t2, c)) bs)"
    using assms(7) by (intro bytes_timely_burst) simp
  have r2: "fst (readline (t1 + READ_TIMEOUT_MS) (map (\<lambda>c. (t2, c)) bs @ rest)) = bs"
    using readline_line [OF ok tm] by (simp add: comp_def)
  have fits: "frame_fits (- dx, dy, L, R)" using assms(2) by simp
  have "stake 2 (port_stream t ((t1, b) # map (\<lambda>c. (t2, c)) bs @ rest)) = [Read [45], Read bs]"
    using r1 r2 by (simp add: stake_two del: readline.simps)
  then show ?thesis
    using decode_minus_only decode_device_line [OF fits] bs by simp
qed

theorem port_split_sign_flip_witness:
  "(-5::int) < 0 \<and> frame_fits (-5, 0, 0, 0) \<and> device_line (-5, 0, 0, 0) = 45 # device_line (5, 0, 0, 0) \<and>
   (0::nat) \<le> 200 \<and> (200::nat) \<le> 0 + READ_TIMEOUT_MS \<and> 200 + READ_TIMEOUT_MS < (1500::nat) \<and>
   (1500::nat) \<le> 200 + 2 * READ_TIMEOUT_MS \<and>
   decoded_frames (stake 2 (port_stream 0 ((200, 45) # map (\<lambda>c. (1500, c)) (device_line (5, 0, 0, 0)) @ []))) =
     [(- (-5), 0, 0, 0)]"
proof -
  have h1: "(-5::int) < 0" by simp
  have h2: "frame_fits (-5, 0, 0, 0)" using ten_le_pow_max_digits by simp
  have h3: "device_line (-5, 0, 0, 0) = 45 # device_line (5, 0, 0, 0)" using device_line_neg [of "-5" 0 0 0] by simp
  have h4: "(0::nat) \<le> 200" "(200::nat) \<le> 0 + READ_TIMEOUT_MS" "200 + READ_TIMEOUT_MS < (1500::nat)"
    "(1500::nat) \<le> 200 + 2 * READ_TIMEOUT_MS"
    by (simp_all add: READ_TIMEOUT_MS_def READ_TIMEOUT_def)
  show ?thesis
    using h1 h2 h3 h4 port_split_sign_flip [OF h1 h2 h3 h4, of "[]"] by simp
qed

text \<open>A line whose bytes are late is split: the device's \<open>12,0,0,0\<close> with the \<open>1\<close> at time
  0 and the rest after the deadline of the first call is read as \<open>1\<close> (refused) and
  \<open>2,0,0,0\<close> (a valid frame), so the loop moves the pointer by 2 where the device reported
  12.\<close>

lemma port_gap_splits_line:
  "decoded_frames (stake 2 (port_stream 0 ((0, 49) # map (\<lambda>b. (1500, b)) (pyb ''2,0,0,0\<newline>'')))) =
   [(2, 0, 0, 0)]"
  by (simp add: stake_two READ_TIMEOUT_MS_def READ_TIMEOUT_def loop_eval)

end
