(* ===== verification/Iteration.thy ===== *)
theory Iteration
  imports MainLoop "HOL-Library.Sublist"
begin

text \<open>
  The loop of \<open>main()\<close> in \<open>src/MouseTracking/python_code.py\<close> at the level of its
  statements. Python raises \<open>KeyboardInterrupt\<close> between any two bytecodes, so Ctrl+C may
  stop the program after the motion call and before the clicks of the same frame, or after
  a press and before \<open>prevL, prevR = L, R\<close>. \<open>stmt_step\<close> executes one statement of an
  iteration, \<open>exec_pc\<close> the rest of an iteration (a \<open>function\<close> with a termination proof
  by the statements left) and \<open>loop_steps\<close> the loop as an inductive step relation whose
  every configuration is a point where the interrupt may arrive. The lemmas show that an
  iteration computes \<open>handle_read\<close>, that the statement-level loop agrees with \<open>run_loop\<close>,
  and that the pointer calls of an interrupted run are exactly the prefixes of the calls of
  the uninterrupted one.
\<close>

section \<open>Definitions\<close>

text \<open>The statements of one iteration of the \<open>while True\<close> loop (lines 36 to 71), each
  an atomic step between two points where \<open>KeyboardInterrupt\<close> may be raised: after
  \<open>readline()\<close> returned the bytes (line 36), on the decoded line (lines 36 to 51), at the
  motion dispatch (lines 54 and 55), at the left and the right button's handling (lines 60
  and 61, or 66 and 67; lines 62 and 63, or 68 and 69) and at the state update (line 71).
  \<open>None\<close> as the location is the loop head (line 35), waiting for the next read.\<close>

datatype pc =
    ReadAt "byte list"
  | DecodeAt pystr
  | MoveAt frame
  | LeftAt frame
  | RightAt frame
  | UpdateAt frame

type_synonym config = "pc option \<times> button_state"

text \<open>One statement: the pointer calls it makes and the next location and state, or the
  exception it raises (the motion dispatch's \<open>OverflowError\<close>).\<close>

fun stmt_step :: "trigger_policy \<Rightarrow> pc \<Rightarrow> button_state \<Rightarrow> py_exc + action list \<times> config" where
  "stmt_step pol (ReadAt bs) st = Inr ([], Some (DecodeAt (utf8_decode bs)), st)"
| "stmt_step pol (DecodeAt line) st =
     (case decode_line line of Inl _ \<Rightarrow> Inr ([], None, st) | Inr f \<Rightarrow> Inr ([], Some (MoveAt f), st))"
| "stmt_step pol (MoveAt (dx, dy, L, R)) st =
     (case motion dx dy of Inl e \<Rightarrow> Inl e | Inr ms \<Rightarrow> Inr (ms, Some (LeftAt (dx, dy, L, R)), st))"
| "stmt_step pol (LeftAt (dx, dy, L, R)) st =
     Inr (button_actions pol Left L (prevL st), Some (RightAt (dx, dy, L, R)), st)"
| "stmt_step pol (RightAt (dx, dy, L, R)) st =
     Inr (button_actions pol Right R (prevR st), Some (UpdateAt (dx, dy, L, R)), st)"
| "stmt_step pol (UpdateAt (dx, dy, L, R)) st = Inr ([], None, st\<lparr>prevL := L, prevR := R\<rparr>)"

text \<open>The statements left before the loop head; each statement lowers it.\<close>

fun pc_rank :: "pc \<Rightarrow> nat" where
  "pc_rank (ReadAt _) = 5"
| "pc_rank (DecodeAt _) = 4"
| "pc_rank (MoveAt _) = 3"
| "pc_rank (LeftAt _) = 2"
| "pc_rank (RightAt _) = 1"
| "pc_rank (UpdateAt _) = 0"

text \<open>The rest of the iteration from a location, run to the loop head (no interrupt).\<close>

function exec_pc :: "trigger_policy \<Rightarrow> pc \<Rightarrow> button_state \<Rightarrow> py_exc + action list \<times> button_state" where
  "exec_pc pol p st =
     (case stmt_step pol p st of
        Inl e \<Rightarrow> Inl e
      | Inr (as, None, st') \<Rightarrow> Inr (as, st')
      | Inr (as, Some p', st') \<Rightarrow>
          (case exec_pc pol p' st' of Inl e \<Rightarrow> Inl e | Inr (as', st'') \<Rightarrow> Inr (as @ as', st'')))"
  by pat_completeness auto
termination
  by (relation "measure (\<lambda>(pol, p, st). pc_rank p)") (auto elim: stmt_step.elims split: sum.splits)

text \<open>The loop run statement by statement: \<open>loop_steps pol c rs as c'\<close> when, from
  configuration \<open>c\<close>, the loop consumes the reads \<open>rs\<close> at its head, makes the pointer
  calls \<open>as\<close> and reaches \<open>c'\<close>. Every configuration reached is a point where the
  interrupt may arrive (\<open>stop\<close>).\<close>

inductive loop_steps :: "trigger_policy \<Rightarrow> config \<Rightarrow> byte list list \<Rightarrow> action list \<Rightarrow> config \<Rightarrow> bool" where
  stop: "loop_steps pol c [] [] c"
| stmt: "stmt_step pol p st = Inr (as, c') \<Longrightarrow> loop_steps pol c' rs as' c'' \<Longrightarrow>
         loop_steps pol (Some p, st) rs (as @ as') c''"
| read: "loop_steps pol (Some (ReadAt bs), st) rs as c'' \<Longrightarrow> loop_steps pol (None, st) (bs # rs) as c''"

text \<open>The uninterrupted run from a configuration over further reads.\<close>

fun run_from :: "trigger_policy \<Rightarrow> config \<Rightarrow> byte list list \<Rightarrow> action list \<times> outcome" where
  "run_from pol (None, st) rs = run_loop pol st (map Read rs)"
| "run_from pol (Some p, st) rs =
     (case exec_pc pol p st of
        Inl e \<Rightarrow> ([], Crashed e)
      | Inr (as, st') \<Rightarrow> (let (as', out) = run_loop pol st' (map Read rs) in (as @ as', out)))"

section \<open>Lemmas\<close>

declare exec_pc.simps [simp del]

lemma exec_pc_UpdateAt [simp]:
  "exec_pc pol (UpdateAt (dx, dy, L, R)) st = Inr ([], st\<lparr>prevL := L, prevR := R\<rparr>)"
  by (subst exec_pc.simps) simp

lemma exec_pc_RightAt [simp]:
  "exec_pc pol (RightAt (dx, dy, L, R)) st =
     Inr (button_actions pol Right R (prevR st), st\<lparr>prevL := L, prevR := R\<rparr>)"
  by (subst exec_pc.simps) simp

lemma exec_pc_LeftAt [simp]:
  "exec_pc pol (LeftAt (dx, dy, L, R)) st =
     Inr (button_actions pol Left L (prevL st) @ button_actions pol Right R (prevR st),
          st\<lparr>prevL := L, prevR := R\<rparr>)"
  by (subst exec_pc.simps) simp

lemma exec_pc_MoveAt [simp]:
  "exec_pc pol (MoveAt (dx, dy, L, R)) st =
     (case motion dx dy of
        Inl e \<Rightarrow> Inl e
      | Inr ms \<Rightarrow> Inr (ms @ button_actions pol Left L (prevL st) @ button_actions pol Right R (prevR st),
                      st\<lparr>prevL := L, prevR := R\<rparr>))"
  by (subst exec_pc.simps) (simp split: sum.split)

lemma exec_pc_DecodeAt [simp]:
  "exec_pc pol (DecodeAt line) st =
     (case decode_line line of Inl _ \<Rightarrow> Inr ([], st) | Inr f \<Rightarrow> exec_pc pol (MoveAt f) st)"
  by (subst exec_pc.simps) (simp split: sum.split)

lemma exec_pc_ReadAt [simp]: "exec_pc pol (ReadAt bs) st = exec_pc pol (DecodeAt (utf8_decode bs)) st"
  by (subst exec_pc.simps) (simp split: sum.split)

lemma click_handling_button_actions:
  "click_handling pol st L R = button_actions pol Left L (prevL st) @ button_actions pol Right R (prevR st)"
  by (simp add: click_handling_def button_actions_def split: trigger_policy.split)

text \<open>The statements of an iteration, run in order from the read, compute \<open>handle_read\<close>.\<close>

lemma exec_pc_handle_read: "exec_pc pol (ReadAt bs) st = handle_read pol st bs"
  by (auto simp: handle_read_def handle_line_def button_step_def click_handling_button_actions
           split: sum.split prod.split)


inductive_cases loop_steps_NoneE: "loop_steps pol (None, st) rs as c"
inductive_cases loop_steps_SomeE: "loop_steps pol (Some p, st) rs as c"

lemma stmt_step_silent_before_crash:
  "stmt_step pol p st = Inr (as, Some p', st') \<Longrightarrow> exec_pc pol p' st' = Inl e \<Longrightarrow> as = []"
  by (cases "(pol, p, st)" rule: stmt_step.cases) (auto split: sum.splits)

lemma exec_pc_step_None:
  "stmt_step pol p st = Inr (as, None, st') \<Longrightarrow> exec_pc pol p st = Inr (as, st')"
  by (subst exec_pc.simps) simp

lemma exec_pc_step_Some:
  "stmt_step pol p st = Inr (as, Some p', st') \<Longrightarrow>
   exec_pc pol p st = (case exec_pc pol p' st' of Inl e \<Rightarrow> Inl e | Inr (as', st'') \<Rightarrow> Inr (as @ as', st''))"
  by (subst exec_pc.simps) simp

lemma run_from_step:
  assumes h: "stmt_step pol p st = Inr (as, c')"
  shows "run_from pol (Some p, st) rs = (as @ fst (run_from pol c' rs), snd (run_from pol c' rs))"
proof (cases c')
  case (Pair q s)
  show ?thesis
  proof (cases q)
    case None
    with h Pair show ?thesis by (simp add: exec_pc_step_None split_beta)
  next
    case (Some p')
    show ?thesis
    proof (cases "exec_pc pol p' s")
      case (Inl e)
      with h Pair Some have "as = []" by (blast intro: stmt_step_silent_before_crash)
      with h Pair Some Inl show ?thesis by (simp add: exec_pc_step_Some)
    next
      case (Inr r)
      with h Pair Some show ?thesis by (simp add: exec_pc_step_Some split_beta)
    qed
  qed
qed

lemma loop_steps_run_from:
  "loop_steps pol c rs as c' \<Longrightarrow>
   run_from pol c (rs @ rs2) = (as @ fst (run_from pol c' rs2), snd (run_from pol c' rs2))"
proof (induction rule: loop_steps.induct)
  case (stop pol c)
  then show ?case by simp
next
  case (stmt pol p st as c' rs as' c'')
  then show ?case by (simp only: run_from_step [OF stmt.hyps(1)]) simp
next
  case (read pol bs st rs as c'')
  then show ?case
    by (cases "exec_pc pol (ReadAt bs) st")
       (auto simp: exec_pc_handle_read split_beta simp del: exec_pc_ReadAt)
qed

lemma loop_steps_trans:
  "loop_steps pol c rs as c' \<Longrightarrow> loop_steps pol c' rs' as' c'' \<Longrightarrow> loop_steps pol c (rs @ rs') (as @ as') c''"
  by (induction rule: loop_steps.induct) (auto intro: loop_steps.intros)

lemma exec_pc_loop_steps:
  "exec_pc pol p st = Inr (as, st') \<Longrightarrow> loop_steps pol (Some p, st) [] as (None, st')"
proof (induction pol p st arbitrary: as rule: exec_pc.induct)
  case (1 pol p st)
  show ?case
  proof (cases "stmt_step pol p st")
    case (Inl e)
    with "1.prems" show ?thesis by (subst (asm) exec_pc.simps) simp
  next
    case (Inr r)
    then obtain a q s where r: "stmt_step pol p st = Inr (a, q, s)" by (cases r) auto
    show ?thesis
    proof (cases q)
      case None
      with r "1.prems" show ?thesis
        by (subst (asm) exec_pc.simps) (auto intro: loop_steps.stmt [where as' = "[]", simplified] loop_steps.stop)
    next
      case (Some p')
      with r "1.prems" obtain a' where "exec_pc pol p' s = Inr (a', st')" and "as = a @ a'"
        by (subst (asm) exec_pc.simps) (auto split: sum.splits)
      with r Some "1.IH" show ?thesis by (auto intro: loop_steps.stmt)
    qed
  qed
qed


lemma stmt_step_length: "stmt_step pol p st = Inr (as, c) \<Longrightarrow> length as \<le> 1"
  by (cases "(pol, p, st)" rule: stmt_step.cases)
     (auto simp: motion_def motion_with_def button_actions_def edge_click_def press_hold_def
           split: sum.splits if_splits trigger_policy.splits)

lemma prefix_short: "prefix xs ys \<Longrightarrow> length ys \<le> 1 \<Longrightarrow> xs = [] \<or> xs = ys"
  by (cases ys) (auto simp: prefix_Cons)

lemma exec_pc_prefix_reachable:
  "exec_pc pol p st = Inr (a, st') \<Longrightarrow> prefix as a \<Longrightarrow> \<exists>c. loop_steps pol (Some p, st) [] as c"
proof (induction pol p st arbitrary: a as rule: exec_pc.induct)
  case (1 pol p st)
  obtain a1 q s where r: "stmt_step pol p st = Inr (a1, q, s)"
    using "1.prems"(1) by (subst (asm) exec_pc.simps) (auto split: sum.splits)
  have one: "loop_steps pol (Some p, st) [] a1 (q, s)"
    using loop_steps.stmt [OF r loop_steps.stop] by simp
  show ?case
  proof (cases q)
    case None
    with r "1.prems" have "prefix as a1" by (simp add: exec_pc_step_None)
    with stmt_step_length [OF r] one show ?thesis by (blast dest: prefix_short intro: loop_steps.stop)
  next
    case (Some p')
    with r "1.prems"(1) obtain a' where e: "exec_pc pol p' s = Inr (a', st')" and a: "a = a1 @ a'"
      by (auto simp: exec_pc_step_Some split: sum.splits)
    from "1.prems"(2) a consider "prefix as a1" | u where "as = a1 @ u" "prefix u a'"
      by (auto simp: prefix_append)
    then show ?thesis
    proof cases
      case 1
      with stmt_step_length [OF r] one show ?thesis by (blast dest: prefix_short intro: loop_steps.stop)
    next
      case 2
      with "1.IH" [OF r [unfolded Some] refl refl refl e] obtain c where "loop_steps pol (Some p', s) [] u c" by blast
      with r Some 2 show ?thesis by (blast intro: loop_steps.stmt)
    qed
  qed
qed

lemma loop_steps_prefix:
  "loop_steps pol (None, st) rs as c \<Longrightarrow> prefix as (fst (run_loop pol st (map Read rs)))"
  using loop_steps_run_from [of pol "(None, st)" rs as c "[]"] by simp

text \<open>Run statement by statement, the loop reaches its head after the reads \<open>rs\<close> with
  the pointer calls \<open>as\<close> and state \<open>st'\<close> exactly when \<open>run_loop\<close> gives them.\<close>

lemma loop_steps_refines:
  "loop_steps pol (None, st) rs as (None, st') \<longleftrightarrow> run_loop pol st (map Read rs) = (as, Running st')"
proof
  assume "loop_steps pol (None, st) rs as (None, st')"
  from loop_steps_run_from [OF this, of "[]"] show "run_loop pol st (map Read rs) = (as, Running st')" by simp
next
  show "run_loop pol st (map Read rs) = (as, Running st') \<Longrightarrow> loop_steps pol (None, st) rs as (None, st')"
  proof (induction rs arbitrary: st as)
    case Nil
    then show ?case by (auto intro: loop_steps.stop)
  next
    case (Cons bs rs)
    then obtain a1 s1 where h: "handle_read pol st bs = Inr (a1, s1)"
      by (cases "handle_read pol st bs") auto
    with Cons.prems obtain a' where r: "run_loop pol s1 (map Read rs) = (a', Running st')" and a: "as = a1 @ a'"
      by (cases "run_loop pol s1 (map Read rs)") auto
    have "loop_steps pol (Some (ReadAt bs), st) ([] @ rs) (a1 @ a') (None, st')"
      by (rule loop_steps_trans [OF exec_pc_loop_steps Cons.IH [OF r]])
         (simp only: exec_pc_handle_read h)
    with a show ?case by (auto intro: loop_steps.read)
  qed
qed

lemma loop_steps_prefix_reachable:
  "prefix as (fst (run_loop pol st (map Read rs))) \<Longrightarrow>
   \<exists>rs' c. prefix rs' rs \<and> loop_steps pol (None, st) rs' as c"
proof (induction rs arbitrary: st as)
  case Nil
  then show ?case by (auto intro: loop_steps.stop)
next
  case (Cons bs rs)
  show ?case
  proof (cases "handle_read pol st bs")
    case (Inl e)
    with Cons.prems have "as = []" by simp
    then show ?thesis by (intro exI [of _ "[]"] exI [of _ "(None, st)"]) (auto intro: loop_steps.stop)
  next
    case (Inr r)
    then obtain a1 s1 where h: "handle_read pol st bs = Inr (a1, s1)" by (cases r) auto
    then have e: "exec_pc pol (ReadAt bs) st = Inr (a1, s1)" by (simp only: exec_pc_handle_read)
    from Cons.prems h consider "prefix as a1" | u where "as = a1 @ u" "prefix u (fst (run_loop pol s1 (map Read rs)))"
      by (auto simp: split_beta prefix_append)
    then show ?thesis
    proof cases
      case 1
      with exec_pc_prefix_reachable [OF e] obtain c where "loop_steps pol (Some (ReadAt bs), st) [] as c" by blast
      then have "loop_steps pol (None, st) [bs] as c" by (rule loop_steps.read)
      moreover have "prefix [bs] (bs # rs)" by simp
      ultimately show ?thesis by blast
    next
      case 2
      with Cons.IH obtain rs' c where p: "prefix rs' rs" and s: "loop_steps pol (None, s1) rs' u c" by blast
      have "loop_steps pol (Some (ReadAt bs), st) ([] @ rs') (a1 @ u) c"
        by (rule loop_steps_trans [OF exec_pc_loop_steps [OF e] s])
      then have "loop_steps pol (None, st) (bs # rs') as c" using 2 by (auto intro: loop_steps.read)
      moreover from p have "prefix (bs # rs') (bs # rs)" by simp
      ultimately show ?thesis by blast
    qed
  qed
qed

text \<open>C25: Under EDGE_CLICK, whichever statement the interrupt arrives before, the program
  leaves every button of the system as it found it: it only clicks and moves, so it never
  exits with a button held (spec section 5: nothing to flush on exit).\<close>

theorem loop_steps_edge_click_nothing_held:
  "loop_steps EdgeClick c rs as c' \<Longrightarrow> os_run h as = h"
proof (induction EdgeClick c rs as c' rule: loop_steps.induct)
  case (stmt p st as c' rs as' c'')
  have "os_run h' as = h'" for h'
    using stmt.hyps(1)
    by (cases "(EdgeClick, p, st)" rule: stmt_step.cases)
       (auto simp: motion_Inr_moves button_actions_def edge_click_def split: sum.splits, simp_all add: os_run_def)
  with stmt.hyps(3) show ?case by (simp add: os_run_append)
qed (simp_all add: os_run_def)


lemma run_loop_prefix_mono:
  "prefix rs' rs \<Longrightarrow> prefix (fst (run_loop pol st (map Read rs'))) (fst (run_loop pol st (map Read rs)))"
proof (induction rs' arbitrary: st rs)
  case Nil
  then show ?case by simp
next
  case (Cons bs rs')
  then obtain rs'' where rs: "rs = bs # rs''" and p: "prefix rs' rs''"
    by (cases rs) auto
  show ?case
  proof (cases "handle_read pol st bs")
    case (Inl e)
    with rs show ?thesis by simp
  next
    case (Inr r)
    with rs Cons.IH [OF p] show ?thesis by (cases r) (simp add: split_beta)
  qed
qed

text \<open>The pointer calls made when the interrupt arrives are exactly the prefixes of the calls
  of the uninterrupted loop over the reads so far.\<close>

lemma loop_steps_interrupt_prefixes:
  "(\<exists>rs' c. prefix rs' rs \<and> loop_steps pol (None, st) rs' as c) \<longleftrightarrow>
   prefix as (fst (run_loop pol st (map Read rs)))"
proof
  assume "\<exists>rs' c. prefix rs' rs \<and> loop_steps pol (None, st) rs' as c"
  then obtain rs' c where "prefix rs' rs" and "loop_steps pol (None, st) rs' as c" by blast
  from loop_steps_prefix [OF this(2)] run_loop_prefix_mono [OF this(1)]
  show "prefix as (fst (run_loop pol st (map Read rs)))" by (rule prefix_order.trans)
qed (rule loop_steps_prefix_reachable)

lemma loop_steps_stmt_app:
  "stmt_step pol p st = Inr (as, c') \<Longrightarrow> loop_steps pol c' rs as' c'' \<Longrightarrow> bs = as @ as' \<Longrightarrow>
   loop_steps pol (Some p, st) rs bs c''"
  using loop_steps.stmt by blast

text \<open>An interrupt between the left button's handling and the right one's: the line
  \<open>0,0,1,0\<close> has made the left button's call and the program stops while \<open>prevL\<close> is
  still 0.\<close>

lemma interrupt_after_left:
  "loop_steps pol (None, init_state) [pyb ''0,0,1,0''] (button_actions pol Left 1 0)
     (Some (RightAt (0, 0, 1, 0)), init_state)"
proof -
  have m: "motion 0 0 = Inr []" by (simp add: motion_def motion_with_def)
  have l: "loop_steps pol (Some (LeftAt (0, 0, 1, 0)), init_state) [] (button_actions pol Left 1 0)
             (Some (RightAt (0, 0, 1, 0)), init_state)"
    by (rule loop_steps_stmt_app [OF _ loop_steps.stop]) (simp_all add: init_state_def)
  have "loop_steps pol (Some (MoveAt (0, 0, 1, 0)), init_state) [] (button_actions pol Left 1 0)
          (Some (RightAt (0, 0, 1, 0)), init_state)"
    by (rule loop_steps_stmt_app [OF _ l]) (simp_all add: m)
  then have "loop_steps pol (Some (DecodeAt (utf8_decode (pyb ''0,0,1,0''))), init_state) [] (button_actions pol Left 1 0)
               (Some (RightAt (0, 0, 1, 0)), init_state)"
    by (rule loop_steps_stmt_app [rotated]) (simp_all add: loop_eval)
  then have "loop_steps pol (Some (ReadAt (pyb ''0,0,1,0'')), init_state) [] (button_actions pol Left 1 0)
               (Some (RightAt (0, 0, 1, 0)), init_state)"
    by (rule loop_steps_stmt_app [rotated]) simp_all
  then show ?thesis by (rule loop_steps.read)
qed

lemma prefix_actions_of: "prefix xs ys \<Longrightarrow> prefix (actions_of b xs) (actions_of b ys)"
  by (auto simp: prefix_def actions_of_append)

text \<open>C12: Whichever statement the interrupt arrives before, the calls the program has made
  for each button, over reads that do not crash it and with levels 0 and 1, are a prefix of a
  run of the spec's per-button machine over the levels decoded so far: an interrupt never
  leaves a call the machine does not make.\<close>

theorem loop_steps_spec_prefix:
  assumes "loop_steps pol (None, init_state) rs as c"
    and "snd (run_loop pol init_state (map Read rs)) \<noteq> Crashed OverflowError"
    and "list_all (\<lambda>f. level01 (level_of b (frame_levels f))) (decoded_frames (map Read rs))"
  shows "\<exists>bs. fsm_run pol b False (map (\<lambda>f. level_of b (frame_levels f) \<noteq> 0) (decoded_frames (map Read rs))) bs \<and>
             prefix (actions_of b as) bs"
proof -
  obtain as' out where run: "run_loop pol init_state (map Read rs) = (as', out)" by fastforce
  have p: "prefix (actions_of b as) (actions_of b as')"
    using prefix_actions_of [OF loop_steps_prefix [OF assms(1)]] run by simp
  have "actions_of b as' = actions_of b (fst (button_run pol init_state (map frame_levels (decoded_frames (map Read rs)))))"
    using run_loop_frames [OF run] assms(2) run by simp
  moreover have "fsm_run pol b (prev_of b init_state \<noteq> 0)
      (map (\<lambda>f. level_of b f \<noteq> 0) (map frame_levels (decoded_frames (map Read rs))))
      (actions_of b (fst (button_run pol init_state (map frame_levels (decoded_frames (map Read rs))))))"
    using assms(3) by (intro button_run_fsm) (simp_all add: level01_def list_all_iff)
  ultimately show ?thesis using p by (auto simp: comp_def)
qed

theorem loop_steps_spec_prefix_witness:
  "loop_steps EdgeClick (None, init_state) [pyb ''0,0,1,0''] [Click Left] (Some (RightAt (0, 0, 1, 0)), init_state) \<and>
   snd (run_loop EdgeClick init_state (map Read [pyb ''0,0,1,0''])) \<noteq> Crashed OverflowError \<and>
   list_all (\<lambda>f. level01 (level_of Left (frame_levels f))) (decoded_frames (map Read [pyb ''0,0,1,0''])) \<and>
   (\<exists>bs. fsm_run EdgeClick Left False
          (map (\<lambda>f. level_of Left (frame_levels f) \<noteq> 0) (decoded_frames (map Read [pyb ''0,0,1,0'']))) bs \<and>
        prefix (actions_of Left [Click Left]) bs)"
proof -
  have h1: "loop_steps EdgeClick (None, init_state) [pyb ''0,0,1,0''] [Click Left] (Some (RightAt (0, 0, 1, 0)), init_state)"
    using interrupt_after_left [of EdgeClick] by (simp add: button_actions_def edge_click_def)
  have h2: "snd (run_loop EdgeClick init_state (map Read [pyb ''0,0,1,0''])) \<noteq> Crashed OverflowError"
    by (simp add: loop_eval)
  have h3: "list_all (\<lambda>f. level01 (level_of Left (frame_levels f))) (decoded_frames (map Read [pyb ''0,0,1,0'']))"
    by (simp add: loop_eval frame_levels_def level01_def)
  show ?thesis using h1 h2 h3 loop_steps_spec_prefix [OF h1 h2 h3] by blast
qed

theorem loop_steps_edge_click_nothing_held_witness:
  "loop_steps EdgeClick (None, init_state) [pyb ''0,0,1,0''] [Click Left] (Some (RightAt (0, 0, 1, 0)), init_state) \<and>
   os_run ((\<lambda>_. False)(Right := True)) [Click Left] = (\<lambda>_. False)(Right := True)"
proof -
  have h: "loop_steps EdgeClick (None, init_state) [pyb ''0,0,1,0''] [Click Left] (Some (RightAt (0, 0, 1, 0)), init_state)"
    using interrupt_after_left [of EdgeClick] by (simp add: button_actions_def edge_click_def)
  show ?thesis using h loop_steps_edge_click_nothing_held [OF h] by simp
qed

end
