(* ===== verification/Pointer.thy ===== *)
theory Pointer
  imports MainLoop
begin

text \<open>
  The pointer injection service behind \<open>pynput.mouse.Controller\<close> (line 24 of
  \<open>src/MouseTracking/python_code.py\<close>), modelled from the spec (section 6), since pynput is
  a library the program only calls: the service's state and its four operations, the
  program's pointer calls applied to it, the agreement of its held buttons with the
  abstraction \<open>os_run\<close> of \<open>MainLoop\<close>, the position the loop leaves the pointer at, and
  the clicks it delivers under EDGE_CLICK.
  Screen edges are not part of the spec's interface and are not modelled: the position is
  an unbounded pair of integers.
\<close>

section \<open>Definitions\<close>

text \<open>The pointer as the spec's pointer injection service sees it (section 6,
  \<open>moveRelative\<close>, \<open>click\<close>, \<open>press\<close>, \<open>release\<close>): a position, the buttons held and the
  clicks delivered per button.\<close>

record pointer =
  pos :: "int \<times> int"
  held :: "button \<Rightarrow> bool"
  clicks :: "button \<Rightarrow> nat"

definition moveRelative :: "int \<Rightarrow> int \<Rightarrow> pointer \<Rightarrow> pointer" where
  "moveRelative dx dy p = p\<lparr>pos := (fst (pos p) + dx, snd (pos p) + dy)\<rparr>"

definition click :: "button \<Rightarrow> pointer \<Rightarrow> pointer" where
  "click b p = p\<lparr>clicks := (clicks p)(b := clicks p b + 1)\<rparr>"

definition press :: "button \<Rightarrow> pointer \<Rightarrow> pointer" where
  "press b p = p\<lparr>held := (held p)(b := True)\<rparr>"

definition release :: "button \<Rightarrow> pointer \<Rightarrow> pointer" where
  "release b p = p\<lparr>held := (held p)(b := False)\<rparr>"

text \<open>The calls of \<open>python_code.py\<close> (\<open>mouse.move\<close>, \<open>mouse.click(b, 1)\<close>,
  \<open>mouse.press\<close>, \<open>mouse.release\<close>) as calls of the service.\<close>

fun pointer_apply :: "pointer \<Rightarrow> action \<Rightarrow> pointer" where
  "pointer_apply p (Move dx dy) = moveRelative dx dy p"
| "pointer_apply p (Click b) = click b p"
| "pointer_apply p (Press b) = press b p"
| "pointer_apply p (Release b) = release b p"

definition pointer_run :: "pointer \<Rightarrow> action list \<Rightarrow> pointer" where
  "pointer_run p as = fold (\<lambda>a q. pointer_apply q a) as p"

text \<open>The sum of the deltas of a sequence of frames, and the frames whose deltas the
  float conversion keeps exact.\<close>

definition frames_delta :: "frame list \<Rightarrow> int \<times> int" where
  "frames_delta fs = (sum_list (map (\<lambda>(dx, dy, L, R). dx) fs), sum_list (map (\<lambda>(dx, dy, L, R). dy) fs))"

fun small_frame :: "frame \<Rightarrow> bool" where
  "small_frame (dx, dy, L, R) = (\<bar>dx\<bar> \<le> 2 ^ DBL_MANT_DIG \<and> \<bar>dy\<bar> \<le> 2 ^ DBL_MANT_DIG)"

text \<open>The rising edges \<open>0 \<rightarrow> 1\<close> of a sequence of levels after the level \<open>prev\<close>.\<close>

fun rising_edges :: "int \<Rightarrow> int list \<Rightarrow> nat" where
  "rising_edges prev [] = 0"
| "rising_edges prev (c # cs) = (if c = 1 \<and> prev = 0 then 1 else 0) + rising_edges c cs"

section \<open>Lemmas\<close>

lemma pointer_run_Nil [simp]: "pointer_run p [] = p"
  by (simp add: pointer_run_def)

lemma pointer_run_append: "pointer_run p (xs @ ys) = pointer_run (pointer_run p xs) ys"
  by (simp add: pointer_run_def)

lemma pointer_run_held: "held (pointer_run p as) = os_run (held p) as"
proof (induction as arbitrary: p)
  case Nil
  then show ?case by (simp add: os_run_def)
next
  case (Cons a as)
  then show ?case
    by (cases a) (simp_all add: pointer_run_def os_run_def moveRelative_def click_def press_def release_def)
qed

lemma click_handling_pos: "pos (pointer_run p (click_handling pol st L R)) = pos p"
  by (auto simp: click_handling_def edge_click_def press_hold_def pointer_run_def click_def press_def release_def
           split: trigger_policy.split)

lemma motion_small_pos:
  "motion dx dy = Inr ms \<Longrightarrow> \<bar>dx\<bar> \<le> 2 ^ DBL_MANT_DIG \<Longrightarrow> \<bar>dy\<bar> \<le> 2 ^ DBL_MANT_DIG \<Longrightarrow>
   pos (pointer_run p ms) = (fst (pos p) + dx, snd (pos p) + dy)"
  by (auto simp: motion_def motion_with_def scaled_delta_exact pointer_run_def moveRelative_def split: if_splits)

lemma motion_small_Inr:
  "\<bar>dx\<bar> \<le> 2 ^ DBL_MANT_DIG \<Longrightarrow> \<bar>dy\<bar> \<le> 2 ^ DBL_MANT_DIG \<Longrightarrow> \<exists>ms. motion dx dy = Inr ms"
  by (simp add: motion_def motion_with_def scaled_delta_exact)

lemma handle_read_Inl:
  "handle_read pol st bs = Inl e \<Longrightarrow>
   \<exists>dx dy L R. decode_line (utf8_decode bs) = Inr (dx, dy, L, R) \<and> motion dx dy = Inl e"
  by (auto simp: handle_read_def handle_line_def split: sum.splits prod.splits)

lemma run_loop_pos:
  assumes "list_all small_frame (decoded_frames evs)"
  shows "pos (pointer_run p (fst (run_loop pol st evs))) =
           (fst (pos p) + fst (frames_delta (decoded_frames evs)), snd (pos p) + snd (frames_delta (decoded_frames evs)))"
  using assms
proof (induction pol st evs arbitrary: p rule: run_loop.induct)
  case (1 pol st)
  then show ?case by (simp add: frames_delta_def)
next
  case (2 pol st evs)
  then show ?case by (simp add: frames_delta_def)
next
  case (3 pol st bs evs)
  show ?case
  proof (cases "handle_read pol st bs")
    case (Inl e)
    then obtain dx dy L R where d: "decode_line (utf8_decode bs) = Inr (dx, dy, L, R)" and "motion dx dy = Inl e"
      by (blast dest: handle_read_Inl)
    moreover from "3.prems" d have "\<bar>dx\<bar> \<le> 2 ^ DBL_MANT_DIG" "\<bar>dy\<bar> \<le> 2 ^ DBL_MANT_DIG" by simp_all
    ultimately show ?thesis by (auto dest: motion_small_Inr)
  next
    case (Inr r)
    obtain as1 st1 where r: "r = (as1, st1)" by fastforce
    have h: "handle_read pol st bs = Inr (as1, st1)" using Inr r by simp
    from handle_read_cases [OF h] show ?thesis
    proof
      assume "as1 = [] \<and> st1 = st \<and> (\<exists>r. decode_line (utf8_decode bs) = Inl r)"
      with "3.IH" [OF Inr r [symmetric]] "3.prems" h show ?thesis
        by (auto simp: run_loop_Read_Inr)
    next
      assume "\<exists>dx dy L R ms. decode_line (utf8_decode bs) = Inr (dx, dy, L, R) \<and> motion dx dy = Inr ms \<and>
            as1 = ms @ click_handling pol st L R \<and> st1 = st\<lparr>prevL := L, prevR := R\<rparr>"
      then obtain dx dy L R ms where d: "decode_line (utf8_decode bs) = Inr (dx, dy, L, R)"
        and m: "motion dx dy = Inr ms" and a1: "as1 = ms @ click_handling pol st L R" by blast
      from "3.prems" d have small: "\<bar>dx\<bar> \<le> 2 ^ DBL_MANT_DIG" "\<bar>dy\<bar> \<le> 2 ^ DBL_MANT_DIG"
        and rest: "list_all small_frame (decoded_frames evs)" by simp_all
      have e: "fst (run_loop pol st (Read bs # evs)) = ms @ click_handling pol st L R @ fst (run_loop pol st1 evs)"
        using run_loop_Read_Inr [OF h, of evs] a1 by simp
      show ?thesis
        unfolding e pointer_run_append
        using "3.IH" [OF Inr r [symmetric] rest] motion_small_pos [OF m small] d
        by (simp add: click_handling_pos frames_delta_def)
    qed
  qed
qed

lemma run_loop_small_running:
  "list_all small_frame (decoded_frames evs) \<Longrightarrow> Interrupt \<notin> set evs \<Longrightarrow> \<exists>st'. snd (run_loop pol st evs) = Running st'"
proof (induction pol st evs rule: run_loop.induct)
  case (3 pol st bs evs)
  show ?case
  proof (cases "handle_read pol st bs")
    case (Inl e)
    then obtain dx dy L R where d: "decode_line (utf8_decode bs) = Inr (dx, dy, L, R)" and "motion dx dy = Inl e"
      by (blast dest: handle_read_Inl)
    moreover from "3.prems" d have "\<bar>dx\<bar> \<le> 2 ^ DBL_MANT_DIG" "\<bar>dy\<bar> \<le> 2 ^ DBL_MANT_DIG" by simp_all
    ultimately show ?thesis by (auto dest: motion_small_Inr)
  next
    case (Inr r)
    obtain as1 st1 where r: "r = (as1, st1)" by fastforce
    have "list_all small_frame (decoded_frames evs)"
      using "3.prems"(1) by (auto split: sum.splits)
    with "3.IH" [OF Inr r [symmetric]] "3.prems"(2) Inr r show ?thesis by (simp add: split_beta)
  qed
qed simp_all

text \<open>C26: When every decoded delta is at most \<open>2 ^ 53\<close> in magnitude, the loop moves the
  pointer by exactly the sum of the deltas of the frames it decoded, whatever lines it
  skipped and whatever the click handling did.\<close>

theorem run_loop_displacement:
  assumes "list_all small_frame (decoded_frames evs)"
  shows "pos (pointer_run p (fst (run_loop pol st evs))) =
           (fst (pos p) + fst (frames_delta (decoded_frames evs)), snd (pos p) + snd (frames_delta (decoded_frames evs)))"
  using assms by (rule run_loop_pos)

theorem run_loop_displacement_witness:
  "list_all small_frame (decoded_frames [Read (pyb ''5,0,0,0\<newline>''), Read (pyb ''bad''), Read (pyb ''-2,3,1,0\<newline>'')]) \<and>
   pos (pointer_run \<lparr>pos = (10, 20), held = \<lambda>_. False, clicks = \<lambda>_. 0\<rparr>
          (fst (run_loop EdgeClick init_state
                  [Read (pyb ''5,0,0,0\<newline>''), Read (pyb ''bad''), Read (pyb ''-2,3,1,0\<newline>'')]))) = (13, 23)"
proof -
  have d: "decoded_frames [Read (pyb ''5,0,0,0\<newline>''), Read (pyb ''bad''), Read (pyb ''-2,3,1,0\<newline>'')] =
             [(5, 0, 0, 0), (-2, 3, 1, 0)]"
    by (simp add: loop_eval)
  have h: "list_all small_frame (decoded_frames [Read (pyb ''5,0,0,0\<newline>''), Read (pyb ''bad''), Read (pyb ''-2,3,1,0\<newline>'')])"
    unfolding d by (simp add: DBL_MANT_DIG_def)
  show ?thesis
    using h run_loop_displacement [OF h, of "\<lparr>pos = (10, 20), held = \<lambda>_. False, clicks = \<lambda>_. 0\<rparr>" EdgeClick init_state]
    unfolding d by (simp add: frames_delta_def)
qed

lemma pointer_run_clicks: "clicks (pointer_run p as) b = clicks p b + count_list as (Click b)"
proof (induction as arbitrary: p)
  case Nil
  then show ?case by simp
next
  case (Cons a as)
  then show ?case
    by (cases a) (simp_all add: pointer_run_def moveRelative_def click_def press_def release_def)
qed

lemma count_list_actions_of: "count_list (actions_of b as) (Click b) = count_list as (Click b)"
  by (induction as) (auto simp: actions_of_def)

lemma button_run_edge_clicks:
  "count_list (fst (button_run EdgeClick st ls)) (Click b) = rising_edges (prev_of b st) (map (level_of b) ls)"
proof (induction ls arbitrary: st)
  case Nil
  then show ?case by simp
next
  case (Cons l ls)
  obtain L R where l: "l = (L, R)" by fastforce
  have "count_list (click_handling EdgeClick st L R) (Click b) = (if level_of b (L, R) = 1 \<and> prev_of b st = 0 then 1 else 0)"
    by (cases b) (simp_all add: click_handling_def edge_click_def prev_of_def)
  with Cons.IH [of "st\<lparr>prevL := L, prevR := R\<rparr>"] l show ?case
    by (simp add: button_step_def split_beta prev_of_update)
qed

text \<open>C16: Under EDGE_CLICK the clicks the pointer service receives for a button, over any
  reads that do not crash the loop, are exactly the rising edges \<open>0 \<rightarrow> 1\<close> of the
  button's decoded levels, counted from its previous level (spec section 4.3 and section 8,
  item 4); skipped lines, moves and the other button change nothing.\<close>

theorem run_loop_edge_clicks:
  assumes "snd (run_loop EdgeClick st evs) \<noteq> Crashed OverflowError"
  shows "clicks (pointer_run p (fst (run_loop EdgeClick st evs))) b =
           clicks p b + rising_edges (prev_of b st) (map (level_of b \<circ> frame_levels) (decoded_frames evs))"
proof -
  obtain as out where r: "run_loop EdgeClick st evs = (as, out)" by fastforce
  with assms have "out \<noteq> Crashed OverflowError" by simp
  from run_loop_frames [OF r this, of b]
  have "actions_of b as = actions_of b (fst (button_run EdgeClick st (map frame_levels (decoded_frames evs))))" by blast
  then have "count_list as (Click b) = count_list (fst (button_run EdgeClick st (map frame_levels (decoded_frames evs)))) (Click b)"
    by (metis count_list_actions_of)
  with r show ?thesis by (simp add: pointer_run_clicks button_run_edge_clicks)
qed

theorem run_loop_edge_clicks_witness:
  "snd (run_loop EdgeClick init_state
     [Read (pyb ''0,0,0,0''), Read (pyb ''0,0,1,0''), Read (pyb ''bad''), Read (pyb ''7,0,1,1''),
      Read (pyb ''0,0,0,0''), Read (pyb ''0,0,1,0'')]) \<noteq> Crashed OverflowError \<and>
   clicks (pointer_run \<lparr>pos = (0, 0), held = \<lambda>_. False, clicks = \<lambda>_. 0\<rparr>
     (fst (run_loop EdgeClick init_state
       [Read (pyb ''0,0,0,0''), Read (pyb ''0,0,1,0''), Read (pyb ''bad''), Read (pyb ''7,0,1,1''),
        Read (pyb ''0,0,0,0''), Read (pyb ''0,0,1,0'')]))) Left = 2"
proof -
  let ?evs = "[Read (pyb ''0,0,0,0''), Read (pyb ''0,0,1,0''), Read (pyb ''bad''), Read (pyb ''7,0,1,1''),
               Read (pyb ''0,0,0,0''), Read (pyb ''0,0,1,0'')]"
  have d: "decoded_frames ?evs = [(0, 0, 0, 0), (0, 0, 1, 0), (7, 0, 1, 1), (0, 0, 0, 0), (0, 0, 1, 0)]"
    by (simp add: loop_eval)
  have h: "snd (run_loop EdgeClick init_state ?evs) \<noteq> Crashed OverflowError"
    by (simp add: loop_eval)
  show ?thesis
    using h run_loop_edge_clicks [OF h, of "\<lparr>pos = (0, 0), held = \<lambda>_. False, clicks = \<lambda>_. 0\<rparr>" Left]
    unfolding d by (simp add: frame_levels_def)
qed

end
