(* ===== verification/Spec2Isabelle.thy ===== *)
theory Spec2Isabelle
  imports Transport Iteration Pointer
begin

text \<open>
  \<^bold>\<open>A verification development of the serial mouse bridge
  \<open>src/MouseTracking/python_code.py\<close>.\<close>

  \<^bold>\<open>The program.\<close> One Python module reads lines \<open>dx,dy,L,R\<close> from a serial port
  (a microcontroller reporting relative motion and the levels of two buttons) and drives
  the pointer through pynput. Its parts, in the order of \<open>main()\<close>:
  \<^item> the read (line 36): \<open>ser.readline()\<close> bytes, \<open>.decode(errors="ignore")\<close>, \<open>.strip()\<close>;
  \<^item> the line decoder (lines 37 to 51): skip an empty line, a line without four
    comma-separated fields, a line with a field \<open>int()\<close> refuses;
  \<^item> the motion dispatch (lines 53 to 55): \<open>mouse.move(int(dx * SCALE), int(dy * SCALE))\<close>
    unless both deltas are zero, \<open>SCALE = 1.0\<close> (line 18);
  \<^item> the click handling (lines 57 to 71): with \<open>EDGE_CLICK\<close> (line 21) a click on
    \<open>L == 1 and prevL == 0\<close>, otherwise press or release on a change of level; then
    \<open>prevL, prevR = L, R\<close>;
  \<^item> the loop and the entry point (lines 26 to 35, 73 to 77): \<open>prevL = prevR = 0\<close>,
    repeat forever, \<open>KeyboardInterrupt\<close> stops with status 0, any other exception is
    uncaught.
  The parts share one piece of state, the previous levels, and communicate by the values
  each passes to the next: bytes, a string, a frame, a list of pointer actions.

  \<^bold>\<open>The theories.\<close>
  \<^item> \<open>Prelude\<close>: the types \<open>pystr\<close> (a Python string as a list of code points) and
    \<open>byte\<close> (\<open>8 word\<close>), literals \<open>pys\<close> and \<open>pyb\<close>, list lemmas.
  \<^item> \<open>Utf8\<close>: \<open>utf8_decode\<close>, CPython's UTF-8 decoder with \<open>errors="ignore"\<close>;
    round trip with \<open>utf8_encode\<close> for every Unicode scalar value, ASCII transparency.
  \<^item> \<open>Py_Text\<close>: \<open>py_isspace\<close>, \<open>py_strip\<close>, \<open>py_split\<close>, \<open>py_join\<close> (CPython's
    \<open>str\<close> methods); split/join round trips, the number of pieces.
  \<^item> \<open>Py_Int\<close>: \<open>py_int\<close>, CPython 3.11's \<open>int(str)\<close>: Unicode digits and
    whitespace, signs, underscores, the 4300-digit limit; \<open>py_int (decimal_str i)\<close>
    is \<open>Some i\<close> exactly below \<open>10 ^ 4300\<close>; every accepted value is below it.
  \<^item> \<open>Decoder\<close>: \<open>decode_line\<close>, lines 36 to 51 with each \<open>continue\<close> a
    \<open>skip_reason\<close>; every line of four fields \<open>int()\<close> accepts decodes to exactly
    those integers; round trip with the device's \<open>format_frame\<close>; the three skip paths.
  \<^item> \<open>Buttons\<close>: \<open>button_state\<close> (\<open>prevL\<close>, \<open>prevR\<close>), \<open>edge_click\<close>,
    \<open>press_hold\<close>, \<open>click_handling\<close>, \<open>button_step\<close>, \<open>button_run\<close>; the spec's
    per-button machine as the inductive \<open>button_fsm\<close> and its runs \<open>fsm_run\<close>; the
    refinement for levels 0 and 1, the state invariant, the alternation of press and
    release, and where lenient levels depart from the spec (a held button pressed again
    under PressHold, a level other than 0 and 1 never clicking under EdgeClick).
  \<^item> \<open>Py_Float\<close>: \<open>py_float_of_int\<close>, Python's \<open>float(int)\<close>: rounding to 53 bits
    ties to even, \<open>OverflowError\<close> exactly from \<open>2 ^ 1024 - 2 ^ 970\<close> (the integers
    that round to \<open>2 ^ 1024\<close>); exact up to \<open>2 ^ 53\<close>.
    \<open>scaled_delta\<close>, \<open>int(d * SCALE)\<close> for any float literal \<open>SCALE\<close> (a \<open>dbl\<close>,
    \<open>m * 2 ^ e\<close>): the double product with \<open>round_dyadic\<close>, the infinity
    (\<open>dyadic_overflows\<close>) and the truncation of \<open>int()\<close> (\<open>trunc_dyadic\<close>); a
    power-of-two scale multiplies exactly or truncates toward zero.
  \<^item> \<open>Motion\<close>: \<open>motion_with\<close>, lines 53 to 55 for a scale, and \<open>motion\<close>, the same
    with \<open>SCALE = 1.0\<close>; exact deltas, no call for a zero motion, \<open>OverflowError\<close>
    exactly when a delta reaches \<open>2 ^ 1024 - 2 ^ 970\<close>, and the call
    \<open>mouse.move(0, 0)\<close> a scale below 1 makes.
  \<^item> \<open>MainLoop\<close>: \<open>handle_line\<close>, \<open>handle_read\<close>, \<open>run_loop\<close>, \<open>main_run\<close>,
    \<open>exit_status\<close>; the buttons the system holds, \<open>os_apply\<close>; the reachable states as the
    inductive \<open>reachable\<close>. The refinement of the whole program to the button machine,
    the invariant that a skipped read changes nothing wherever it is inserted, the order
    of the calls of one read (the move, then the buttons), the held-button invariant by
    rule induction, the crash on a well-formed huge frame.
  \<^item> \<open>Serve\<close>: \<open>serve\<close>, the \<open>while True\<close> loop over the whole life of the port (an
    infinite stream of reads), defined with \<open>partial_function (option)\<close> so that a loop
    that never ends is \<open>None\<close>; it agrees with \<open>run_loop\<close> on every prefix that ends the
    loop; it runs forever exactly when the port never reports an interrupt and no read
    decodes to a frame with a delta at the overflow threshold, and timeouts never end it.
  \<^item> \<open>Program\<close>: the settings \<open>PORT\<close>, \<open>BAUD\<close>, the read timeout and the settle delay
    (lines 6, 9, 30, 32), \<open>main_effects\<close> (\<open>main()\<close>: open the port, sleep, print the
    banner, serve, close the port when an exception leaves the \<open>with\<close> block), \<open>entry\<close>
    and \<open>program\<close> (the controller of line 24 and lines 73 to 77) as a list of observable
    effects and an exit status. The open failure, the order of the effects, the exit
    status tied to the exception that left \<open>main()\<close>, the release of the port,
    termination once the port reports an interrupt,
    and the buttons a PressHold run leaves held at exit.
  \<^item> \<open>Transport\<close>: \<open>readline\<close>, pyserial 3's \<open>readline()\<close> (\<open>io.IOBase.readline\<close>
    calling \<open>read(1)\<close>, each with its own one-second timeout) over bytes that arrive at
    known times, and \<open>port_stream\<close> (a \<open>primcorec\<close> stream), the reads the loop sees;
    the device's lines \<open>device_line\<close>. Lines whose bytes each come within the timeout
    arrive whole and the loop decodes exactly the device's frames; a gap after the minus
    sign of a negative \<open>dx\<close> makes the loop move the pointer the opposite way.
  \<^item> \<open>Iteration\<close>: the loop statement by statement, so that \<open>KeyboardInterrupt\<close> may
    arrive before any statement (Python raises it between bytecodes): \<open>stmt_step\<close> (one
    statement of lines 36 to 71), \<open>exec_pc\<close> (the rest of an iteration, a
    \<open>function\<close> whose termination measure is the number of statements left) and the
    inductive \<open>loop_steps\<close>. An iteration computes \<open>handle_read\<close> and the
    statement-level loop agrees with \<open>run_loop\<close> (lemmas); the calls made when the
    interrupt arrives are the prefixes of the uninterrupted calls, so each button's calls
    are a prefix of a run of the spec's machine; under EdgeClick no interrupt leaves a
    button held.
  \<^item> \<open>Pointer\<close>: the pointer injection service of the spec (section 6), the state of
    \<open>pynput.mouse.Controller\<close>: \<open>pointer\<close> (position, held buttons, clicks) with
    \<open>moveRelative\<close>, \<open>click\<close>, \<open>press\<close>, \<open>release\<close>, and \<open>pointer_run\<close>, the
    program's calls applied in order; its held buttons are \<open>os_run\<close>'s, the loop
    moves the pointer by the sum of the deltas of the frames it decodes, and under
    EDGE_CLICK a button receives one click per rising edge \<open>0 \<rightarrow> 1\<close> of its levels.
  \<^item> this theory: the effect of one well-formed device line on the whole pipeline, and a
    whole session: the device's lines over the timed transport, Ctrl+C while the loop
    waits, the program's complete effect trace, exit status and pointer displacement.
  Besides, \<open>Py_Text\<close> holds \<open>split_ref\<close>, the reference meaning of \<open>str.split\<close>
  (a \<open>function\<close> with its termination proof) that CPython's scan is proved equal to, and
  \<open>Utf8\<close> proves that the decoder only produces Unicode scalar values.

  \<^bold>\<open>Bounds.\<close> The loop runs forever over an unbounded port. \<open>run_loop\<close> runs it over any
  finite list of read events, \<open>serve\<close> over an infinite stream of them; no fuel is needed:
  the only loop of the source consumes one read per iteration, so \<open>serve\<close> either stops at
  a finite prefix (and is \<open>Some\<close>) or serves every read (and is \<open>None\<close>), and both are
  proved. Every other definition is total (\<open>split_ref\<close> by a length measure,
  \<open>exec_pc\<close> by the statements left in the iteration). Integers are
  Python's unbounded integers (\<open>int\<close>); the bounds that matter are the code's own: 4300
  digits in \<open>int()\<close>, \<open>2 ^ 53\<close> and \<open>2 ^ 1024\<close> in the float conversion, the 53 bits
  and the floor \<open>2 ^ -1074\<close> of the product. The power-of-two scale theorem is stated for
  \<open>-1021 \<le> e \<le> 970\<close>, the range where a delta up to \<open>2 ^ 53\<close> neither meets the
  subnormal floor nor overflows. Time in \<open>Transport\<close> is in milliseconds, and the read
  timeout is the code's one second.

  \<^bold>\<open>Not modelled.\<close> A read that raises: \<open>ser.readline()\<close> raises
  \<open>SerialException\<close> when the device is unplugged while the loop runs; \<open>read_event\<close>
  has no such event, so the theorems are about ports that stay connected. The time the
  loop body takes: \<open>Transport\<close> starts the next
  \<open>readline()\<close> when the previous one returns (a slower body only lets more bytes wait in
  the buffer, which the driver keeps). The size of the driver's buffer. The inside of
  \<open>serial.Serial\<close>: the model takes from the environment whether the port opens. The
  screen edges: the spec's pointer service has no screen, so \<open>Pointer\<close> keeps the
  position as an unbounded pair of integers, the sum of the moves the program requests;
  where the system clamps the pointer its real position differs. A failure of
  \<open>Controller()\<close> at import. The program-level traces of \<open>Program\<close> take the interrupt
  at the two blocking points, the settle delay and the read; \<open>Iteration\<close> gives what the
  loop has done when it arrives before any other statement. A \<open>SCALE\<close> that is not a
  finite float literal (\<open>inf\<close>, \<open>nan\<close>).

  \<^bold>\<open>Plan for later work.\<close> The statement-level interrupt of \<open>Iteration\<close> carried
  into \<open>Program\<close>'s effect traces; sessions whose lines arrive late, where the theorem
  would need the fields of every fragment of a line to be small as well.
\<close>

section \<open>One device line through the whole program\<close>

lemma crlf_space: "list_all py_isspace [13, 10]"
  by (simp add: py_isspace_def)

text \<open>C2: A line the device sends for a frame with deltas up to \<open>2 ^ 53\<close> and levels of at most
  4300 digits, in ASCII and ended by \<open>\r\n\<close>, makes the program move the pointer by exactly
  the deltas (no call when both are zero) and then act on the buttons as the click
  handling says, and leaves the levels of the frame as the new state.\<close>

theorem device_line_effect:
  assumes "\<bar>dx\<bar> \<le> 2 ^ DBL_MANT_DIG" and "\<bar>dy\<bar> \<le> 2 ^ DBL_MANT_DIG"
    and "\<bar>L\<bar> < 10 ^ INT_MAX_STR_DIGITS" and "\<bar>R\<bar> < 10 ^ INT_MAX_STR_DIGITS"
  shows "handle_read pol st (map byte_of (format_frame (dx, dy, L, R) @ [13, 10])) =
           Inr ((if (dx, dy) = (0, 0) then [] else [Move dx dy]) @ click_handling pol st L R,
                st\<lparr>prevL := L, prevR := R\<rparr>)"
proof -
  have "(2::int) ^ DBL_MANT_DIG < 10 ^ INT_MAX_STR_DIGITS"
  proof -
    have "(2::int) ^ DBL_MANT_DIG < 10 ^ DBL_MANT_DIG" by (rule power_strict_mono) (simp_all add: DBL_MANT_DIG_def)
    also have "(10::int) ^ DBL_MANT_DIG \<le> 10 ^ INT_MAX_STR_DIGITS"
      by (rule power_increasing) (simp_all add: DBL_MANT_DIG_def INT_MAX_STR_DIGITS_def)
    finally show ?thesis .
  qed
  with assms have fits: "frame_fits (dx, dy, L, R)" by simp
  have ascii: "list_all (\<lambda>c. c < 128) (format_frame (dx, dy, L, R) @ [13, 10])"
    using format_frame_ascii [of "(dx, dy, L, R)"] by simp
  have dec: "decode_line (utf8_decode (map byte_of (format_frame (dx, dy, L, R) @ [13, 10]))) = Inr (dx, dy, L, R)"
    using utf8_decode_byte_of_ascii [OF ascii] decode_line_format_frame [OF fits, of "[]" "[13, 10]"] crlf_space
    by simp
  have mot: "motion dx dy = (if (dx, dy) = (0, 0) then Inr [] else Inr [Move dx dy])"
    using assms(1,2) by (simp add: motion_def motion_with_def scaled_delta_exact)
  show ?thesis
    using dec mot by (simp add: handle_read_def handle_line_def button_step_def)
qed

theorem device_line_effect_witness:
  "\<bar>3::int\<bar> \<le> 2 ^ DBL_MANT_DIG \<and> \<bar>-2::int\<bar> \<le> 2 ^ DBL_MANT_DIG \<and>
   \<bar>1::int\<bar> < 10 ^ INT_MAX_STR_DIGITS \<and> \<bar>0::int\<bar> < 10 ^ INT_MAX_STR_DIGITS \<and>
   handle_read EdgeClick init_state (map byte_of (format_frame (3, -2, 1, 0) @ [13, 10])) =
     Inr ([Move 3 (-2), Click Left], \<lparr>prevL = 1, prevR = 0\<rparr>)"
proof -
  have h: "\<bar>3::int\<bar> \<le> 2 ^ DBL_MANT_DIG" "\<bar>-2::int\<bar> \<le> 2 ^ DBL_MANT_DIG"
    "\<bar>1::int\<bar> < 10 ^ INT_MAX_STR_DIGITS" "\<bar>0::int\<bar> < 10 ^ INT_MAX_STR_DIGITS"
    using ten_le_pow_max_digits by (simp_all add: DBL_MANT_DIG_def)
  show ?thesis
    using h device_line_effect [OF h, of EdgeClick init_state]
    by (simp add: click_handling_def edge_click_def init_state_def)
qed

section \<open>A session of the device through the whole program\<close>

lemma serve_then_Interrupt:
  assumes "run_loop pol st xs = (as, Running st')"
  shows "serve pol st (xs @- sconst Interrupt) = Some (as, KeyboardInterrupt)"
proof -
  have "stake (Suc (length xs)) (xs @- sconst Interrupt) = xs @ [Interrupt]"
    by (simp add: stake_shift stake_sconst_replicate)
  moreover have "run_loop pol st (xs @ [Interrupt]) = (as, Stopped)"
    using run_loop_append [OF assms, of "[Interrupt]"] by simp
  ultimately show ?thesis
    using serve_prefix_raised [of pol st "Suc (length xs)" "xs @- sconst Interrupt" KeyboardInterrupt] by simp
qed

text \<open>C17: A whole session over the serial transport: when the device prints frames whose
  fields fit and whose deltas are at most \<open>2 ^ 53\<close>, each line on time, and Ctrl+C comes
  while the loop waits for the next line, the program opens the port, waits, prints the
  banner, makes the pointer calls of the frames, closes the port, prints \<open>Stopped.\<close> and
  exits with status 0; the pointer has moved by the sum of the frames' deltas.\<close>

theorem device_session:
  assumes "timely t ls" and "map (map snd) ls = map device_line fs"
    and "list_all frame_fits fs" and "list_all small_frame fs"
  shows "\<exists>as. program \<lparr>port_opens = True, settle_interrupted = False, port_reads = stake (length fs) (port_stream t (concat ls @ rest)) @- sconst Interrupt\<rparr> =
           Some ([CreateController, OpenPort PORT BAUD READ_TIMEOUT, Sleep SETTLE_DELAY_MS, Print LISTENING_MSG] @
                 map Pointer as @ [ClosePort, Print STOPPED_MSG], 0) \<and>
         pos (pointer_run p as) = (fst (pos p) + fst (frames_delta fs), snd (pos p) + snd (frames_delta fs))"
proof -
  define reads where "reads = stake (length fs) (port_stream t (concat ls @ rest))"
  have r: "reads = map (\<lambda>f. Read (device_line f)) fs"
    unfolding reads_def by (rule port_stream_device_reads [OF assms(1,2)])
  have d: "decoded_frames reads = fs"
    unfolding r by (rule decoded_frames_device_lines [OF assms(3)])
  have ni: "Interrupt \<notin> set reads" unfolding r by auto
  obtain st' where run: "snd (run_loop (policy_of EDGE_CLICK) init_state reads) = Running st'"
    using run_loop_small_running [of reads, OF _ ni] assms(4) d by auto
  let ?as = "fst (run_loop (policy_of EDGE_CLICK) init_state reads)"
  have "serve (policy_of EDGE_CLICK) init_state (reads @- sconst Interrupt) = Some (?as, KeyboardInterrupt)"
    by (rule serve_then_Interrupt) (simp add: run prod_eq_iff)
  then have "program \<lparr>port_opens = True, settle_interrupted = False, port_reads = reads @- sconst Interrupt\<rparr> =
           Some ([CreateController, OpenPort PORT BAUD READ_TIMEOUT, Sleep SETTLE_DELAY_MS, Print LISTENING_MSG] @
                 map Pointer ?as @ [ClosePort, Print STOPPED_MSG], 0)"
    by (simp add: program_def entry_served)
  moreover have "pos (pointer_run p ?as) = (fst (pos p) + fst (frames_delta fs), snd (pos p) + snd (frames_delta fs))"
    using run_loop_pos [of reads p] assms(4) d by simp
  ultimately show ?thesis unfolding reads_def by blast
qed

theorem device_session_witness:
  "timely 0 [map (\<lambda>b. (900, b)) (device_line (1, 0, 0, 0)), map (\<lambda>b. (1800, b)) (device_line (0, -4, 1, 0))] \<and>
   map (map snd) [map (\<lambda>b. (900::nat, b)) (device_line (1, 0, 0, 0)), map (\<lambda>b. (1800::nat, b)) (device_line (0, -4, 1, 0))] =
     map device_line [(1, 0, 0, 0), (0, -4, 1, 0)] \<and>
   list_all frame_fits [(1, 0, 0, 0), (0, -4, 1, 0)] \<and> list_all small_frame [(1, 0, 0, 0), (0, -4, 1, 0)] \<and>
   (\<exists>as. program \<lparr>port_opens = True, settle_interrupted = False,
            port_reads = stake (length [(1::int, 0::int, 0::int, 0::int), (0, -4, 1, 0)])
              (port_stream 0 (concat [map (\<lambda>b. (900, b)) (device_line (1, 0, 0, 0)),
                                      map (\<lambda>b. (1800, b)) (device_line (0, -4, 1, 0))] @ [])) @- sconst Interrupt\<rparr> =
          Some ([CreateController, OpenPort PORT BAUD READ_TIMEOUT, Sleep SETTLE_DELAY_MS, Print LISTENING_MSG] @
                map Pointer as @ [ClosePort, Print STOPPED_MSG], 0) \<and>
        pos (pointer_run \<lparr>pos = (100, 100), held = \<lambda>_. False, clicks = \<lambda>_. 0\<rparr> as) = (101, 96))"
proof -
  let ?ls = "[map (\<lambda>b. (900::nat, b)) (device_line (1, 0, 0, 0)), map (\<lambda>b. (1800::nat, b)) (device_line (0, -4, 1, 0))]"
  let ?fs = "[(1::int, 0::int, 0::int, 0::int), (0, -4, 1, 0)]"
  have h1: "timely 0 ?ls"
    by (simp add: bytes_timely_burst line_end_burst device_line_ne READ_TIMEOUT_MS_def READ_TIMEOUT_def)
  have h2: "map (map snd) ?ls = map device_line ?fs"
    by (simp add: comp_def)
  have h3: "list_all frame_fits ?fs"
    using ten_le_pow_max_digits by simp
  have h4: "list_all small_frame ?fs"
    by (simp add: DBL_MANT_DIG_def)
  show ?thesis
    using h1 h2 h3 h4 device_session [OF h1 h2 h3 h4, of "[]" "\<lparr>pos = (100, 100), held = \<lambda>_. False, clicks = \<lambda>_. 0\<rparr>"]
    by (simp add: frames_delta_def)
qed

end
